theory Spec2Isabelle
  imports Complex_Main "HOL-Library.Multiset" "HOL-Library.AList" "HOL-Library.Sublist"
begin

section \<open>Results analyzer of the JMeter MCP server (src/analyzer.ts)\<close>

text \<open>
  Conventions of the embedding.
  \<^item> A TypeScript \<open>number\<close> is a \<open>real\<close>, and comparisons are those of the reals. The
    numbers of the source are IEEE 754 doubles: where the rounding of an operation
    decides a discrete result (the index that \<open>percentile\<close> reads, the cursor of the
    loop of \<open>generateTimeSeriesData\<close> and the bound of its windows) the operation is
    the exact one followed by \<open>fl64\<close>, the rounding to the nearest double. The other
    sums and quotients (averages, rates) are read exactly.
  \<^item> A \<open>string\<close> is a list of code units below 256.
  \<^item> \<open>undefined\<close> as the result of reading an array out of range is \<open>None\<close>.
  \<^item> An exception is a value \<open>Inl e\<close> of a sum type.
  \<^item> \<open>Array.prototype.sort\<close> is stable (ECMAScript 2019) and every comparator of the
    analyzer is the difference of a numeric key, so a sort is the stable sort by that
    key: \<open>sort_key\<close>.
\<close>

subsection \<open>Data model (types.ts)\<close>

record JTLResult =
  timestamp :: real
  elapsed :: real
  label :: string
  responseCode :: string
  responseMessage :: string
  threadName :: string
  dataType :: string
  success :: bool
  failureMessage :: "string option"
  bytes :: real
  sentBytes :: real
  grpThreads :: real
  allThreads :: real
  latency :: real
  idleTime :: real
  connect :: real

record PerformanceMetrics =
  totalRequests :: real
  successfulRequests :: real
  failedRequests :: real
  errorRate :: real
  averageResponseTime :: real
  medianResponseTime :: real
  minResponseTime :: real
  maxResponseTime :: real
  percentile90 :: real
  percentile95 :: real
  percentile99 :: real
  throughput :: real
  receivedKBPerSec :: real
  sentKBPerSec :: real
  avgBytes :: real
  avgLatency :: real
  avgConnectTime :: real

text \<open>
  The fields of the remaining interfaces carry a prefix (\<open>ep_\<close>, \<open>ea_\<close>, \<open>b_\<close>,
  \<open>ts_\<close>), since their names repeat those of the records above or of constants of
  the library (\<open>min\<close>, \<open>max\<close>, \<open>count\<close>).
\<close>

record EndpointMetrics =
  ep_label :: string
  ep_samples :: real
  ep_average :: real
  ep_median :: real
  ep_min :: real
  ep_max :: real
  ep_percentile90 :: real
  ep_percentile95 :: real
  ep_percentile99 :: real
  ep_errorRate :: real
  ep_throughput :: real
  ep_receivedKBPerSec :: real
  ep_sentKBPerSec :: real

record ErrorAnalysis =
  ea_responseCode :: string
  ea_responseMessage :: string
  ea_count :: real
  ea_percentage :: real
  ea_affectedEndpoints :: "string list"

datatype BottleneckType = SlowEndpoint | HighErrorRate | HighLatency | LowThroughput

datatype Severity = Critical | High | Medium | Low

record Bottleneck =
  b_type :: BottleneckType
  b_severity :: Severity
  b_description :: string
  b_affectedEndpoint :: string
  b_metric :: string
  b_value :: real
  b_threshold :: real

record TimeSeriesData =
  ts_timestamp :: real
  ts_responseTime :: real
  ts_throughput :: real
  ts_activeThreads :: real
  ts_errorCount :: real

datatype error = TypeError

subsection \<open>Objects used as dictionaries\<close>

text \<open>
  \<open>groupBy\<close> and \<open>analyzeErrors\<close> collect arrays in an object literal \<open>{}\<close>. Its own
  properties are kept here as an association list in creation order. Two features of
  JavaScript objects are visible to the analyzer:
  \<^item> a read \<open>groups[k]\<close> of a key that is no own property finds the properties that
    \<open>{}\<close> inherits from \<open>Object.prototype\<close>; they are functions (and, for
    \<open>__proto__\<close>, an object), so \<open>!groups[k]\<close> is false, no array is created, and
    \<open>groups[k].push\<close> is not a function: the call throws a TypeError;
  \<^item> \<open>Object.entries\<close> enumerates the own properties whose key is an array index (the
    canonical decimal numeral of an integer from 0 to \<open>2^32 - 2\<close>) first, in ascending
    numeric order, and then the other keys in creation order.
\<close>

type_synonym 'a obj = "(string \<times> 'a) list"

definition Object_prototype_keys :: "string list" where
  "Object_prototype_keys =
     [''constructor'', ''__defineGetter__'', ''__defineSetter__'', ''hasOwnProperty'',
      ''__lookupGetter__'', ''__lookupSetter__'', ''isPrototypeOf'',
      ''propertyIsEnumerable'', ''toString'', ''valueOf'', ''__proto__'',
      ''toLocaleString'']"

text \<open>
  The statements \<open>if (!groups[k]) { groups[k] = []; } groups[k].push(item)\<close>: an array
  is truthy, also when it is empty.
\<close>

definition push_to_group :: "string \<Rightarrow> 'a \<Rightarrow> 'a list obj \<Rightarrow> error + 'a list obj" where
  "push_to_group k item groups =
     (case map_of groups k of
        Some items \<Rightarrow> Inr (AList.update k (items @ [item]) groups)
      | None \<Rightarrow>
          if k \<in> set Object_prototype_keys then Inl TypeError
          else Inr (groups @ [(k, [item])]))"

definition is_digit :: "char \<Rightarrow> bool" where
  "is_digit c = (48 \<le> (of_char c :: nat) \<and> (of_char c :: nat) \<le> 57)"

definition decimal :: "string \<Rightarrow> nat" where
  "decimal s = foldl (\<lambda>n c. 10 * n + (of_char c - 48)) 0 s"

definition array_index :: "string \<Rightarrow> nat option" where
  "array_index k =
     (if k \<noteq> [] \<and> list_all is_digit k \<and> (k = ''0'' \<or> hd k \<noteq> CHR ''0'')
         \<and> decimal k < 2 ^ 32 - 1
      then Some (decimal k) else None)"

definition key_index :: "string \<Rightarrow> nat" where
  "key_index k = (case array_index k of Some n \<Rightarrow> n | None \<Rightarrow> 0)"

text \<open>The order in which the own string keys of an object are enumerated.\<close>

definition property_order :: "string list \<Rightarrow> string list" where
  "property_order ks =
     sort_key key_index (filter (\<lambda>k. array_index k \<noteq> None) ks)
     @ filter (\<lambda>k. array_index k = None) ks"

definition Object_entries :: "'a obj \<Rightarrow> (string \<times> 'a) list" where
  "Object_entries obj =
     sort_key (\<lambda>e. key_index (fst e)) (filter (\<lambda>e. array_index (fst e) \<noteq> None) obj)
     @ filter (\<lambda>e. array_index (fst e) = None) obj"

text \<open>\<open>[...new Set(xs)]\<close>: the distinct elements in the order of their first occurrence.\<close>

primrec Set_values :: "'a list \<Rightarrow> 'a list" where
  "Set_values [] = []"
| "Set_values (x # xs) = x # filter (\<lambda>y. y \<noteq> x) (Set_values xs)"

subsection \<open>Parsing a line of the CSV format\<close>

text \<open>
  \<open>String.prototype.trim\<close> removes white space and line terminators from both ends;
  among the code units below 256 these are TAB, LF, VT, FF, CR, SPACE and NBSP.
\<close>

definition is_space :: "char \<Rightarrow> bool" where
  "is_space c = (c \<in> set [CHR 0x09, CHR 0x0A, CHR 0x0B, CHR 0x0C, CHR 0x0D, CHR 0x20, CHR 0xA0])"

definition trim :: "string \<Rightarrow> string" where
  "trim s = rev (dropWhile is_space (rev (dropWhile is_space s)))"

text \<open>
  The state of the loop of \<open>parseCsvLine\<close> is \<open>(values, current, inQuotes)\<close>;
  \<open>csv_char\<close> is its body for one character.
\<close>

type_synonym csv_state = "string list \<times> string \<times> bool"

fun csv_char :: "csv_state \<Rightarrow> char \<Rightarrow> csv_state" where
  "csv_char (values, current, inQuotes) char =
     (if char = CHR 0x22 then (values, current, \<not> inQuotes)
      else if char = CHR '','' \<and> \<not> inQuotes then (values @ [trim current], [], inQuotes)
      else (values, current @ [char], inQuotes))"

definition parseCsvLine :: "string \<Rightarrow> string list" where
  "parseCsvLine line =
     (case foldl csv_char ([], [], False) line of
        (values, current, inQuotes) \<Rightarrow> values @ [trim current])"

subsection \<open>Double arithmetic\<close>

text \<open>
  Rounding to the nearest double, ties to even (the rounding of every arithmetic
  operation of JavaScript).
  \<^item> \<open>rne\<close> rounds a real to the nearest integer, a tie to the even one.
  \<^item> \<open>binade k y\<close> is the exponent of the binade of the magnitude \<open>y\<close>: the largest \<open>e\<close>
    from \<open>-1021\<close> to \<open>k - 1022\<close> with \<open>2^e \<le> y\<close>, and \<open>-1022\<close> when there is none (the
    lowest binade of normal numbers and the subnormal numbers share this exponent).
    With \<open>k = 2045\<close> the exponents reach 1023, the highest of a double.
  \<^item> \<open>round_mag\<close> rounds a magnitude to the nearest multiple of the unit in the last
    place of its binade, \<open>2^(e - 52)\<close>: a double has 53 significant bits.
  \<^item> \<open>fl64\<close> gives the result its sign; a magnitude that reaches \<open>2^1024\<close> is above
    every double: \<open>2^1024\<close> stands for \<open>Infinity\<close> and \<open>-(2^1024)\<close> for \<open>-Infinity\<close>.
\<close>

definition rne :: "real \<Rightarrow> int" where
  "rne x =
     (let f = \<lfloor>x\<rfloor>; d = x - of_int f
      in if d < 1 / 2 then f else if 1 / 2 < d then f + 1 else if even f then f else f + 1)"

fun binade :: "nat \<Rightarrow> real \<Rightarrow> int" where
  "binade 0 y = - 1022"
| "binade (Suc k) y =
     (if 2 powi (int (Suc k) - 1022) \<le> y then int (Suc k) - 1022 else binade k y)"

definition round_mag :: "real \<Rightarrow> real" where
  "round_mag y = (let u = 2 powi (binade 2045 y - 52) in of_int (rne (y / u)) * u)"

definition fl64 :: "real \<Rightarrow> real" where
  "fl64 x = max (- (2 ^ 1024)) (min (2 ^ 1024) (sgn x * round_mag \<bar>x\<bar>))"

subsection \<open>Statistics helpers\<close>

text \<open>\<open>xs[i]\<close> on a JavaScript array: \<open>undefined\<close> outside \<open>0 .. length - 1\<close>.\<close>

definition array_get :: "'a list \<Rightarrow> int \<Rightarrow> 'a option" where
  "array_get xs i = (if 0 \<le> i \<and> nat i < length xs then Some (xs ! nat i) else None)"

definition average :: "real list \<Rightarrow> real" where
  "average numbers =
     (if length numbers = 0 then 0
      else foldl (\<lambda>sum n. sum + n) 0 numbers / real (length numbers))"

text \<open>
  In \<open>percentile\<close> the quotient \<open>percentile / 100\<close> and its product with the length are
  operations on doubles; \<open>Math.ceil\<close>, the subtraction of 1 from the integer it returns
  and \<open>Math.max\<close> are exact. The length of an array is an integer below \<open>2^32\<close>.
\<close>

definition percentile :: "real list \<Rightarrow> real \<Rightarrow> real option" where
  "percentile sortedNumbers p =
     (if length sortedNumbers = 0 then Some 0
      else let index = \<lceil>fl64 (fl64 (p / 100) * real (length sortedNumbers))\<rceil> - 1
           in array_get sortedNumbers (max 0 index))"

text \<open>
  \<open>Math.max(...xs)\<close> and \<open>Math.min(...xs)\<close>. On an empty argument list the source
  gets \<open>-Infinity\<close> and \<open>Infinity\<close>, which are no reals; the analyzer calls both on
  non-empty arrays only (behind \<open>results.length === 0\<close>, on a group of \<open>groupBy\<close>, or
  behind \<open>intervalResults.length > 0\<close>), so only that case has an equation.
\<close>

fun Math_max :: "real list \<Rightarrow> real" where
  "Math_max (x # xs) = fold max xs x"

fun Math_min :: "real list \<Rightarrow> real" where
  "Math_min (x # xs) = fold min xs x"

subsection \<open>Overall metrics\<close>

definition getEmptyMetrics :: PerformanceMetrics where
  "getEmptyMetrics =
     \<lparr> totalRequests = 0, successfulRequests = 0, failedRequests = 0, errorRate = 0,
       averageResponseTime = 0, medianResponseTime = 0, minResponseTime = 0,
       maxResponseTime = 0, percentile90 = 0, percentile95 = 0, percentile99 = 0,
       throughput = 0, receivedKBPerSec = 0, sentKBPerSec = 0, avgBytes = 0,
       avgLatency = 0, avgConnectTime = 0 \<rparr>"

text \<open>
  The percentile fields are numbers in \<open>types.ts\<close>. \<open>percentile\<close> is called here with
  50, 90, 95 and 99 on a non-empty array, where lemma \<open>percentile_defined\<close> below shows
  that its result is a number; \<open>the\<close> reads that number.
\<close>

definition calculateMetrics :: "JTLResult list \<Rightarrow> PerformanceMetrics" where
  "calculateMetrics results =
     (if length results = 0 then getEmptyMetrics
      else
        let successfulResults = filter (\<lambda>r. success r) results;
            failedResults = filter (\<lambda>r. \<not> success r) results;
            responseTimes = sort_key (\<lambda>a. a) (map elapsed results);
            totalTime = Math_max (map timestamp results) - Math_min (map timestamp results);
            totalTimeInSeconds = totalTime / 1000
        in \<lparr> totalRequests = real (length results),
             successfulRequests = real (length successfulResults),
             failedRequests = real (length failedResults),
             errorRate = (real (length failedResults) / real (length results)) * 100,
             averageResponseTime = average responseTimes,
             medianResponseTime = the (percentile responseTimes 50),
             minResponseTime = Math_min responseTimes,
             maxResponseTime = Math_max responseTimes,
             percentile90 = the (percentile responseTimes 90),
             percentile95 = the (percentile responseTimes 95),
             percentile99 = the (percentile responseTimes 99),
             throughput =
               (if totalTimeInSeconds > 0 then real (length results) / totalTimeInSeconds
                else 0),
             receivedKBPerSec =
               (if totalTimeInSeconds > 0
                then foldl (\<lambda>sum r. sum + bytes r) 0 results / 1024 / totalTimeInSeconds
                else 0),
             sentKBPerSec =
               (if totalTimeInSeconds > 0
                then foldl (\<lambda>sum r. sum + sentBytes r) 0 results / 1024 / totalTimeInSeconds
                else 0),
             avgBytes = foldl (\<lambda>sum r. sum + bytes r) 0 results / real (length results),
             avgLatency = average (map latency results),
             avgConnectTime = average (map connect results) \<rparr>)"

subsection \<open>Per-endpoint metrics\<close>

text \<open>
  \<open>groupBy(array, key)\<close> is a \<open>reduce\<close> over the array with \<open>push_to_group\<close> as its
  step; \<open>key\<close> is the field that is read (the analyzer passes \<open>'label'\<close>).
\<close>

fun groupBy_from :: "'a list obj \<Rightarrow> 'a list \<Rightarrow> ('a \<Rightarrow> string) \<Rightarrow> error + 'a list obj" where
  "groupBy_from groups [] key = Inr groups"
| "groupBy_from groups (item # array) key =
     (case push_to_group (key item) item groups of
        Inl e \<Rightarrow> Inl e
      | Inr groups' \<Rightarrow> groupBy_from groups' array key)"

definition groupBy :: "'a list \<Rightarrow> ('a \<Rightarrow> string) \<Rightarrow> error + 'a list obj" where
  "groupBy array key = groupBy_from [] array key"

text \<open>The body of the loop of \<open>calculateEndpointMetrics\<close>: the metrics of one group.\<close>

definition endpointMetricsOf :: "string \<times> JTLResult list \<Rightarrow> EndpointMetrics" where
  "endpointMetricsOf entry =
     (let lbl = fst entry;
          endpointResults = snd entry;
          responseTimes = sort_key (\<lambda>a. a) (map elapsed endpointResults);
          failedCount = length (filter (\<lambda>r. \<not> success r) endpointResults);
          totalTime = Math_max (map timestamp endpointResults)
                      - Math_min (map timestamp endpointResults);
          totalTimeInSeconds = totalTime / 1000
      in \<lparr> ep_label = lbl,
           ep_samples = real (length endpointResults),
           ep_average = average responseTimes,
           ep_median = the (percentile responseTimes 50),
           ep_min = Math_min responseTimes,
           ep_max = Math_max responseTimes,
           ep_percentile90 = the (percentile responseTimes 90),
           ep_percentile95 = the (percentile responseTimes 95),
           ep_percentile99 = the (percentile responseTimes 99),
           ep_errorRate = (real failedCount / real (length endpointResults)) * 100,
           ep_throughput =
             (if totalTimeInSeconds > 0
              then real (length endpointResults) / totalTimeInSeconds else 0),
           ep_receivedKBPerSec =
             (if totalTimeInSeconds > 0
              then foldl (\<lambda>sum r. sum + bytes r) 0 endpointResults / 1024
                   / totalTimeInSeconds
              else 0),
           ep_sentKBPerSec =
             (if totalTimeInSeconds > 0
              then foldl (\<lambda>sum r. sum + sentBytes r) 0 endpointResults / 1024
                   / totalTimeInSeconds
              else 0) \<rparr>)"

text \<open>
  The comparator \<open>(a, b) => b.average - a.average\<close> orders by descending average:
  the stable sort by the negated average.
\<close>

definition calculateEndpointMetrics :: "JTLResult list \<Rightarrow> error + EndpointMetrics list" where
  "calculateEndpointMetrics results =
     (case groupBy results label of
        Inl e \<Rightarrow> Inl e
      | Inr endpointGroups \<Rightarrow>
          let metrics = map endpointMetricsOf (Object_entries endpointGroups)
          in Inr (sort_key (\<lambda>m. - ep_average m) metrics))"

subsection \<open>Error analysis\<close>

definition errorKey :: "JTLResult \<Rightarrow> string" where
  "errorKey result = responseCode result @ ''-'' @ responseMessage result"

text \<open>
  The callback of the \<open>map\<close> over the entries. \<open>errors[0]\<close> of an empty array is
  \<open>undefined\<close>, and reading a property of it throws.
\<close>

fun errorCluster :: "nat \<Rightarrow> string \<times> JTLResult list \<Rightarrow> error + ErrorAnalysis" where
  "errorCluster resultCount (k, []) = Inl TypeError"
| "errorCluster resultCount (k, e0 # es) =
     Inr \<lparr> ea_responseCode = responseCode e0,
           ea_responseMessage = responseMessage e0,
           ea_count = real (length (e0 # es)),
           ea_percentage = (real (length (e0 # es)) / real resultCount) * 100,
           ea_affectedEndpoints = Set_values (map label (e0 # es)) \<rparr>"

text \<open>\<open>Array.prototype.map\<close> with a callback that may throw: the first exception ends it.\<close>

fun map_throwing :: "('a \<Rightarrow> error + 'b) \<Rightarrow> 'a list \<Rightarrow> error + 'b list" where
  "map_throwing f [] = Inr []"
| "map_throwing f (x # xs) =
     (case f x of
        Inl e \<Rightarrow> Inl e
      | Inr y \<Rightarrow> (case map_throwing f xs of Inl e \<Rightarrow> Inl e | Inr ys \<Rightarrow> Inr (y # ys)))"

definition analyzeErrors :: "JTLResult list \<Rightarrow> error + ErrorAnalysis list" where
  "analyzeErrors results =
     (let failedResults = filter (\<lambda>r. \<not> success r) results
      in if length failedResults = 0 then Inr []
         else
           case groupBy_from [] failedResults errorKey of
             Inl e \<Rightarrow> Inl e
           | Inr errorGroups \<Rightarrow>
               (case map_throwing (errorCluster (length results)) (Object_entries errorGroups) of
                  Inl e \<Rightarrow> Inl e
                | Inr clusters \<Rightarrow> Inr (sort_key (\<lambda>c. - ea_count c) clusters)))"

subsection \<open>Bottlenecks\<close>

fun severityOrder :: "Severity \<Rightarrow> nat" where
  "severityOrder Critical = 0"
| "severityOrder High = 1"
| "severityOrder Medium = 2"
| "severityOrder Low = 3"

text \<open>The body of the loop over the endpoints: up to three pushes.\<close>

definition checkEndpoint :: "Bottleneck list \<Rightarrow> EndpointMetrics \<Rightarrow> Bottleneck list" where
  "checkEndpoint bottlenecks endpoint =
     (let b1 =
            (if ep_average endpoint > 2000
             then bottlenecks @
               [\<lparr> b_type = SlowEndpoint,
                  b_severity =
                    (if ep_average endpoint > 5000 then Critical
                     else if ep_average endpoint > 3000 then High else Medium),
                  b_description =
                    ''Endpoint \"'' @ ep_label endpoint @ ''\" has slow response time'',
                  b_affectedEndpoint = ep_label endpoint,
                  b_metric = ''Average Response Time'',
                  b_value = ep_average endpoint,
                  b_threshold = 2000 \<rparr>]
             else bottlenecks);
          b2 =
            (if ep_errorRate endpoint > 5
             then b1 @
               [\<lparr> b_type = HighErrorRate,
                  b_severity =
                    (if ep_errorRate endpoint > 20 then Critical
                     else if ep_errorRate endpoint > 10 then High else Medium),
                  b_description =
                    ''Endpoint \"'' @ ep_label endpoint @ ''\" has high error rate'',
                  b_affectedEndpoint = ep_label endpoint,
                  b_metric = ''Error Rate'',
                  b_value = ep_errorRate endpoint,
                  b_threshold = 5 \<rparr>]
             else b1)
      in if ep_percentile95 endpoint > 1000
         then b2 @
           [\<lparr> b_type = HighLatency,
              b_severity =
                (if ep_percentile95 endpoint > 3000 then Critical
                 else if ep_percentile95 endpoint > 2000 then High else Medium),
              b_description =
                ''Endpoint \"'' @ ep_label endpoint
                @ ''\" has high latency at 95th percentile'',
              b_affectedEndpoint = ep_label endpoint,
              b_metric = ''95th Percentile'',
              b_value = ep_percentile95 endpoint,
              b_threshold = 1000 \<rparr>]
         else b2)"

definition identifyBottlenecks ::
  "PerformanceMetrics \<Rightarrow> EndpointMetrics list \<Rightarrow> Bottleneck list" where
  "identifyBottlenecks metrics endpointMetrics =
     (let b1 = foldl checkEndpoint [] endpointMetrics;
          bottlenecks =
            (if errorRate metrics > 5
             then b1 @
               [\<lparr> b_type = HighErrorRate,
                  b_severity =
                    (if errorRate metrics > 20 then Critical
                     else if errorRate metrics > 10 then High else Medium),
                  b_description = ''Overall error rate is high'',
                  b_affectedEndpoint = ''All endpoints'',
                  b_metric = ''Error Rate'',
                  b_value = errorRate metrics,
                  b_threshold = 5 \<rparr>]
             else b1)
      in sort_key (\<lambda>b. severityOrder (b_severity b)) bottlenecks)"

subsection \<open>Recommendations\<close>

definition bottleneckAdvice :: "string list \<Rightarrow> Bottleneck \<Rightarrow> string list" where
  "bottleneckAdvice recommendations bottleneck =
     (if b_type bottleneck = SlowEndpoint
      then recommendations @
        [''Optimize \"'' @ b_affectedEndpoint bottleneck
         @ ''\": Consider database query optimization, caching, or code profiling.'']
      else if b_type bottleneck = HighErrorRate
      then recommendations @
        [''Investigate errors in \"'' @ b_affectedEndpoint bottleneck
         @ ''\": Check server logs, validate input data, and review error handling.'']
      else if b_type bottleneck = HighLatency
      then recommendations @
        [''Reduce latency for \"'' @ b_affectedEndpoint bottleneck
         @ ''\": Review network configuration, enable compression, or use CDN.'']
      else recommendations)"

definition errorAdvice :: "string list \<Rightarrow> ErrorAnalysis \<Rightarrow> string list" where
  "errorAdvice recommendations error =
     (if take 1 (ea_responseCode error) = ''5''
      then recommendations @
        [''Server errors ('' @ ea_responseCode error
         @ ''): Review server capacity, check for memory leaks, and monitor resource usage.'']
      else if ea_responseCode error = ''404''
      then recommendations @
        [''404 errors found: Verify API endpoints are correctly configured and accessible.'']
      else if ea_responseCode error = ''401'' \<or> ea_responseCode error = ''403''
      then recommendations @
        [''Authentication/Authorization errors: Check credentials, tokens, and permission configurations.'']
      else recommendations)"

definition fallbackRecommendation :: string where
  "fallbackRecommendation =
     ''Performance looks good! Continue monitoring and consider stress testing with higher loads.''"

definition generateRecommendations ::
  "PerformanceMetrics \<Rightarrow> Bottleneck list \<Rightarrow> ErrorAnalysis list \<Rightarrow> string list" where
  "generateRecommendations metrics bottlenecks errors =
     (let r1 = foldl bottleneckAdvice [] bottlenecks;
          r2 = foldl errorAdvice r1 (take 3 errors);
          r3 =
            (if errorRate metrics > 1 \<and> errorRate metrics \<le> 5
             then r2 @
               [''Monitor error trends: Error rate is slightly elevated. Set up alerts to catch increases early.'']
             else r2);
          r4 =
            (if percentile95 metrics > averageResponseTime metrics * 2
             then r3 @
               [''Inconsistent response times: Consider implementing request queuing or load balancing to stabilize performance.'']
             else r3);
          recommendations =
            (if throughput metrics < 10
             then r4 @
               [''Low throughput detected: Consider horizontal scaling, optimizing resource usage, or increasing connection pools.'']
             else r4)
      in if length recommendations = 0 then [fallbackRecommendation] else recommendations)"

subsection \<open>Time series\<close>

text \<open>
  One iteration of the loop of \<open>generateTimeSeriesData\<close> at the cursor \<open>time\<close>: the point
  it pushes, if any. The bound \<open>time + intervalMs\<close> of the window is a sum of doubles.
  (For \<open>intervalMs = 0\<close> the quotient is \<open>Infinity\<close> in the source and 0 here; the loop
  never ends in that case, so no such point is returned.)
\<close>

definition intervalPoint :: "JTLResult list \<Rightarrow> real \<Rightarrow> real \<Rightarrow> TimeSeriesData list" where
  "intervalPoint results intervalMs time =
     (let intervalResults =
            filter (\<lambda>r. timestamp r \<ge> time \<and> timestamp r < fl64 (time + intervalMs)) results
      in if length intervalResults > 0
         then
           [\<lparr> ts_timestamp = time,
              ts_responseTime = average (map elapsed intervalResults),
              ts_throughput = real (length intervalResults) / (intervalMs / 1000),
              ts_activeThreads = Math_max (map allThreads intervalResults),
              ts_errorCount = real (length (filter (\<lambda>r. \<not> success r) intervalResults)) \<rparr>]
         else [])"

text \<open>
  The \<open>for\<close> loop, with the cursor and the array built so far as its state; the update
  \<open>time += intervalMs\<close> is a sum of doubles. The loop need not end: the result is \<open>None\<close>
  when it runs forever.
\<close>

partial_function (option) timeLoop ::
  "JTLResult list \<Rightarrow> real \<Rightarrow> real \<Rightarrow> real \<Rightarrow> TimeSeriesData list \<Rightarrow> TimeSeriesData list option"
  where
  "timeLoop results intervalMs maxTime time timeSeriesData =
     (if time \<le> maxTime
      then timeLoop results intervalMs maxTime (fl64 (time + intervalMs))
             (timeSeriesData @ intervalPoint results intervalMs time)
      else Some timeSeriesData)"

definition generateTimeSeriesData :: "JTLResult list \<Rightarrow> real \<Rightarrow> TimeSeriesData list option" where
  "generateTimeSeriesData results intervalMs =
     (if length results = 0 then Some []
      else
        let minTime = Math_min (map timestamp results);
            maxTime = Math_max (map timestamp results)
        in timeLoop results intervalMs maxTime minTime [])"

text \<open>The call with \<open>intervalMs\<close> omitted, as \<open>analyzeResults\<close> makes it.\<close>

definition generateTimeSeriesData_default :: "JTLResult list \<Rightarrow> TimeSeriesData list option" where
  "generateTimeSeriesData_default results = generateTimeSeriesData results 10000"

subsection \<open>The classification table of the specification\<close>

text \<open>
  These definitions follow the words of the specification, not the source: the tier of
  a value against its critical and high thresholds, the entry each condition reports,
  and the entries the classifier has to emit, as a multiset. \<open>identifyBottlenecks\<close> is
  compared with them below.
\<close>

definition spec_tier :: "real \<Rightarrow> real \<Rightarrow> real \<Rightarrow> Severity" where
  "spec_tier v critical high =
     (if v > critical then Critical else if v > high then High else Medium)"

definition spec_slow :: "EndpointMetrics \<Rightarrow> Bottleneck" where
  "spec_slow e =
     \<lparr> b_type = SlowEndpoint, b_severity = spec_tier (ep_average e) 5000 3000,
       b_description = ''Endpoint \"'' @ ep_label e @ ''\" has slow response time'',
       b_affectedEndpoint = ep_label e, b_metric = ''Average Response Time'',
       b_value = ep_average e, b_threshold = 2000 \<rparr>"

definition spec_errors :: "EndpointMetrics \<Rightarrow> Bottleneck" where
  "spec_errors e =
     \<lparr> b_type = HighErrorRate, b_severity = spec_tier (ep_errorRate e) 20 10,
       b_description = ''Endpoint \"'' @ ep_label e @ ''\" has high error rate'',
       b_affectedEndpoint = ep_label e, b_metric = ''Error Rate'',
       b_value = ep_errorRate e, b_threshold = 5 \<rparr>"

definition spec_latency :: "EndpointMetrics \<Rightarrow> Bottleneck" where
  "spec_latency e =
     \<lparr> b_type = HighLatency, b_severity = spec_tier (ep_percentile95 e) 3000 2000,
       b_description = ''Endpoint \"'' @ ep_label e @ ''\" has high latency at 95th percentile'',
       b_affectedEndpoint = ep_label e, b_metric = ''95th Percentile'',
       b_value = ep_percentile95 e, b_threshold = 1000 \<rparr>"

definition spec_overall :: "PerformanceMetrics \<Rightarrow> Bottleneck" where
  "spec_overall m =
     \<lparr> b_type = HighErrorRate, b_severity = spec_tier (errorRate m) 20 10,
       b_description = ''Overall error rate is high'',
       b_affectedEndpoint = ''All endpoints'', b_metric = ''Error Rate'',
       b_value = errorRate m, b_threshold = 5 \<rparr>"

definition spec_bottlenecks ::
  "PerformanceMetrics \<Rightarrow> EndpointMetrics list \<Rightarrow> Bottleneck multiset" where
  "spec_bottlenecks m es =
     image_mset spec_slow (filter_mset (\<lambda>e. ep_average e > 2000) (mset es))
     + image_mset spec_errors (filter_mset (\<lambda>e. ep_errorRate e > 5) (mset es))
     + image_mset spec_latency (filter_mset (\<lambda>e. ep_percentile95 e > 1000) (mset es))
     + (if errorRate m > 5 then {#spec_overall m#} else {#})"

subsection \<open>Lines of delimited records\<close>

text \<open>
  The lines on which the parser of CSV lines is examined, as a writer with RFC 4180
  quoting emits them: a cell is written plainly, when it holds neither a comma nor a
  double quote, or between double quotes, with every double quote inside doubled; the
  cells of a record are joined by commas. \<open>kept\<close> is what the parser keeps of a cell
  before trimming: it drops every double quote, also a doubled one.
\<close>

datatype cell = Plain string | Quoted string

definition escape :: "string \<Rightarrow> string" where
  "escape s = concat (map (\<lambda>c. if c = CHR 0x22 then [c, c] else [c]) s)"

fun written :: "cell \<Rightarrow> string" where
  "written (Plain s) = s"
| "written (Quoted s) = [CHR 0x22] @ escape s @ [CHR 0x22]"

fun kept :: "cell \<Rightarrow> string" where
  "kept (Plain s) = s"
| "kept (Quoted s) = filter (\<lambda>c. c \<noteq> CHR 0x22) s"

fun well_formed :: "cell \<Rightarrow> bool" where
  "well_formed (Plain s) = (CHR 0x22 \<notin> set s \<and> CHR '','' \<notin> set s)"
| "well_formed (Quoted s) = True"

fun csv_line :: "cell list \<Rightarrow> string" where
  "csv_line [] = []"
| "csv_line [c] = written c"
| "csv_line (c # c' # cs) = written c @ '','' @ csv_line (c' # cs)"

subsection \<open>Sample data for the examples\<close>

definition sample :: "real \<Rightarrow> real \<Rightarrow> string \<Rightarrow> bool \<Rightarrow> JTLResult" where
  "sample t e l ok =
     \<lparr> timestamp = t, elapsed = e, label = l,
       responseCode = (if ok then ''200'' else ''500''),
       responseMessage = (if ok then ''OK'' else ''Internal Server Error''),
       threadName = ''Thread Group 1-1'', dataType = ''text'', success = ok,
       failureMessage = None, bytes = 2048, sentBytes = 1024, grpThreads = 1,
       allThreads = 1, latency = e, idleTime = 0, connect = 0 \<rparr>"

definition endpointX :: EndpointMetrics where
  "endpointX =
     \<lparr> ep_label = ''X'', ep_samples = 4, ep_average = 2650, ep_median = 200,
       ep_min = 100, ep_max = 10000, ep_percentile90 = 10000, ep_percentile95 = 10000,
       ep_percentile99 = 10000, ep_errorRate = 25, ep_throughput = 4,
       ep_receivedKBPerSec = 8, ep_sentKBPerSec = 4 \<rparr>"

definition healthyMetrics :: PerformanceMetrics where
  "healthyMetrics =
     \<lparr> totalRequests = 100, successfulRequests = 100, failedRequests = 0, errorRate = 0,
       averageResponseTime = 500, medianResponseTime = 480, minResponseTime = 200,
       maxResponseTime = 700, percentile90 = 580, percentile95 = 600, percentile99 = 650,
       throughput = 50, receivedKBPerSec = 100, sentKBPerSec = 50, avgBytes = 2048,
       avgLatency = 400, avgConnectTime = 20 \<rparr>"

definition throughputBottleneck :: Bottleneck where
  "throughputBottleneck =
     \<lparr> b_type = LowThroughput, b_severity = Low, b_description = ''Throughput is low'',
       b_affectedEndpoint = ''All endpoints'', b_metric = ''Throughput'', b_value = 50,
       b_threshold = 100 \<rparr>"

definition badRequestCluster :: ErrorAnalysis where
  "badRequestCluster =
     \<lparr> ea_responseCode = ''400'', ea_responseMessage = ''Bad Request'', ea_count = 1,
       ea_percentage = 1, ea_affectedEndpoints = [''X''] \<rparr>"

definition twoSamples :: "JTLResult list" where
  "twoSamples = [sample 500 120 ''A'' True, sample 1700 80 ''B'' False]"

definition failure :: "string \<Rightarrow> string \<Rightarrow> string \<Rightarrow> JTLResult" where
  "failure code message l =
     \<lparr> timestamp = 1000, elapsed = 100, label = l, responseCode = code,
       responseMessage = message, threadName = ''Thread Group 1-1'', dataType = ''text'',
       success = False, failureMessage = None, bytes = 2048, sentBytes = 1024,
       grpThreads = 1, allThreads = 1, latency = 100, idleTime = 0, connect = 0 \<rparr>"

definition tiedSamples :: "JTLResult list" where
  "tiedSamples = [sample 1000 100 ''2'' True, sample 2000 100 ''1'' True]"

definition tiedMetrics :: "EndpointMetrics list" where
  "tiedMetrics =
     [endpointMetricsOf (''1'', [sample 2000 100 ''1'' True]),
      endpointMetricsOf (''2'', [sample 1000 100 ''2'' True])]"

section \<open>Properties\<close>

subsection \<open>Double arithmetic\<close>

lemma rne_floor_le: "\<lfloor>x\<rfloor> \<le> rne x"
  by (simp add: rne_def Let_def)

lemma rne_le_ceiling: "rne x \<le> \<lceil>x\<rceil>"
proof (cases "x = of_int \<lfloor>x\<rfloor>")
  case True
  then have "x - of_int \<lfloor>x\<rfloor> = 0" by simp
  then have "rne x = \<lfloor>x\<rfloor>" by (simp add: rne_def Let_def)
  then show ?thesis by (simp add: floor_le_ceiling)
next
  case False
  then have "\<lceil>x\<rceil> = \<lfloor>x\<rfloor> + 1" by (metis ceiling_altdef)
  then show ?thesis by (simp add: rne_def Let_def)
qed

lemma rne_of_int [simp]: "rne (of_int k) = k"
  by (simp add: rne_def)

lemma rne_ge:
  assumes "of_int a \<le> x"
  shows "a \<le> rne x"
proof -
  from assms have "a \<le> \<lfloor>x\<rfloor>" by (simp add: le_floor_iff)
  with rne_floor_le [of x] show ?thesis by linarith
qed

lemma rne_le:
  assumes "x \<le> of_int b"
  shows "rne x \<le> b"
proof -
  from assms have "\<lceil>x\<rceil> \<le> b" by (simp add: ceiling_le_iff)
  with rne_le_ceiling [of x] show ?thesis by linarith
qed

lemma rne_mono: "x \<le> y \<Longrightarrow> rne x \<le> rne y"
proof -
  assume le: "x \<le> y"
  then have fl: "\<lfloor>x\<rfloor> \<le> \<lfloor>y\<rfloor>" by (rule floor_mono)
  show ?thesis
  proof (cases "\<lfloor>x\<rfloor> = \<lfloor>y\<rfloor>")
    case True
    with le have "x - of_int \<lfloor>x\<rfloor> \<le> y - of_int \<lfloor>y\<rfloor>" by simp
    with True show ?thesis by (simp add: rne_def Let_def)
  next
    case False
    with fl have "\<lfloor>x\<rfloor> + 1 \<le> \<lfloor>y\<rfloor>" by simp
    moreover have "rne x \<le> \<lfloor>x\<rfloor> + 1" by (simp add: rne_def Let_def)
    ultimately show ?thesis using rne_floor_le [of y] by linarith
  qed
qed

lemma binade_range: "- 1022 \<le> binade k x \<and> binade k x \<le> int k - 1022"
  by (induction k) auto

lemma binade_lower: "- 1022 < binade k x \<Longrightarrow> 2 powi (binade k x) \<le> x"
  by (induction k) (auto split: if_splits)

lemma binade_upper: "binade k x < int k - 1022 \<Longrightarrow> x < 2 powi (binade k x + 1)"
proof (induction k)
  case 0
  then show ?case by simp
next
  case (Suc k)
  show ?case
  proof (cases "2 powi (int (Suc k) - 1022) \<le> x")
    case True
    with Suc.prems show ?thesis by simp
  next
    case False
    then have b: "binade (Suc k) x = binade k x" by simp
    show ?thesis
    proof (cases "binade k x < int k - 1022")
      case True
      from Suc.IH [OF this] b show ?thesis by simp
    next
      case False
      with binade_range [of k x] have "binade k x = int k - 1022" by linarith
      then have "binade k x + 1 = int (Suc k) - 1022" by simp
      with \<open>\<not> 2 powi (int (Suc k) - 1022) \<le> x\<close> b show ?thesis by (simp only: not_le)
    qed
  qed
qed

lemma binade_mono: "a \<le> b \<Longrightarrow> binade k a \<le> binade k b"
proof (induction k)
  case 0
  show ?case by simp
next
  case (Suc k)
  show ?case
  proof (cases "2 powi (int (Suc k) - 1022) \<le> b")
    case True
    then have "binade (Suc k) b = int (Suc k) - 1022" by simp
    with binade_range [of "Suc k" a] show ?thesis by linarith
  next
    case False
    with Suc.prems have "\<not> 2 powi (int (Suc k) - 1022) \<le> a" by linarith
    with False Suc show ?thesis by simp
  qed
qed

lemma binade_eq:
  assumes "- 1022 \<le> e" and "e \<le> int k - 1022" and "2 powi e \<le> x" and "x < 2 powi (e + 1)"
  shows "binade k x = e"
proof -
  have two: "(1::real) < 2" by simp
  have up: "e \<le> binade k x"
  proof (rule ccontr)
    assume "\<not> e \<le> binade k x"
    then have lt: "binade k x < e" by simp
    with assms(2) have "binade k x < int k - 1022" by linarith
    from binade_upper [OF this] have "x < 2 powi (binade k x + 1)" .
    also have "\<dots> \<le> 2 powi e" using lt by (intro power_int_increasing) simp_all
    finally show False using assms(3) by simp
  qed
  have "binade k x \<le> e"
  proof (rule ccontr)
    assume "\<not> binade k x \<le> e"
    then have lt: "e + 1 \<le> binade k x" by simp
    with assms(1) have "- 1022 < binade k x" by linarith
    from binade_lower [OF this] have "2 powi (binade k x) \<le> x" .
    moreover have "(2::real) powi (e + 1) \<le> 2 powi (binade k x)"
      using lt by (intro power_int_increasing) simp_all
    ultimately show False using assms(4) by linarith
  qed
  with up show ?thesis by simp
qed

lemma round_mag_eval:
  assumes "- 1022 \<le> e" and "e \<le> 1023" and "2 powi e \<le> y" and "y < 2 powi (e + 1)"
  shows "round_mag y = of_int (rne (y / 2 powi (e - 52))) * 2 powi (e - 52)"
proof -
  have "binade 2045 y = e" using assms by (intro binade_eq) simp_all
  then show ?thesis by (simp add: round_mag_def Let_def)
qed

lemma round_mag_nonneg: "0 \<le> y \<Longrightarrow> 0 \<le> round_mag y"
proof -
  assume "0 \<le> y"
  then have "0 \<le> y / 2 powi (binade 2045 y - 52)" by simp
  then have "0 \<le> rne (y / 2 powi (binade 2045 y - 52))" using rne_ge [of 0] by simp
  then show ?thesis by (simp add: round_mag_def Let_def)
qed

lemma round_mag_upper:
  assumes "0 \<le> y" and "binade 2045 y < 1023"
  shows "round_mag y \<le> 2 powi (binade 2045 y + 1)"
proof -
  define e where "e = binade 2045 y"
  have u: "(0::real) < 2 powi (e - 52)" by simp
  from assms(2) have "y < 2 powi (e + 1)" unfolding e_def by (intro binade_upper) simp
  then have "y / 2 powi (e - 52) < 2 powi (e + 1) / 2 powi (e - 52)"
    using u by (simp add: divide_strict_right_mono)
  also have "(2::real) powi (e + 1) / 2 powi (e - 52) = 2 powi 53"
    by (simp add: power_int_diff [symmetric])
  finally have "y / 2 powi (e - 52) \<le> of_int (2 ^ 53)" by simp
  then have "rne (y / 2 powi (e - 52)) \<le> 2 ^ 53" by (rule rne_le)
  then have "real_of_int (rne (y / 2 powi (e - 52))) \<le> 2 ^ 53"
    by (metis of_int_le_iff of_int_numeral of_int_power)
  then have b: "real_of_int (rne (y / 2 powi (e - 52))) * 2 powi (e - 52) \<le> 2 ^ 53 * 2 powi (e - 52)"
    using u by (intro mult_right_mono) simp_all
  have a: "(2::real) ^ 53 * 2 powi (e - 52) = 2 powi (e + 1)"
  proof -
    have "(2::real) powi 53 * 2 powi (e - 52) = 2 powi (53 + (e - 52))"
      by (subst power_int_add) simp_all
    then show ?thesis by (simp add: add.commute)
  qed
  from b have "real_of_int (rne (y / 2 powi (e - 52))) * 2 powi (e - 52) \<le> 2 powi (e + 1)"
    unfolding a .
  then show ?thesis unfolding round_mag_def Let_def e_def .
qed

lemma round_mag_lower:
  assumes "- 1022 < binade 2045 y"
  shows "2 powi (binade 2045 y) \<le> round_mag y"
proof -
  define e where "e = binade 2045 y"
  have u: "(0::real) < 2 powi (e - 52)" by simp
  from assms have "2 powi e \<le> y" unfolding e_def by (rule binade_lower)
  then have "2 powi e / 2 powi (e - 52) \<le> y / 2 powi (e - 52)"
    using u by (simp add: divide_right_mono)
  moreover have "(2::real) powi e / 2 powi (e - 52) = 2 powi 52"
    by (simp add: power_int_diff [symmetric])
  ultimately have "of_int (2 ^ 52) \<le> y / 2 powi (e - 52)" by simp
  then have "2 ^ 52 \<le> rne (y / 2 powi (e - 52))" by (rule rne_ge)
  then have "(2::real) ^ 52 \<le> real_of_int (rne (y / 2 powi (e - 52)))"
    by (metis of_int_le_iff of_int_numeral of_int_power)
  then have b: "2 ^ 52 * 2 powi (e - 52) \<le> real_of_int (rne (y / 2 powi (e - 52))) * 2 powi (e - 52)"
    using u by (intro mult_right_mono) simp_all
  have a: "(2::real) ^ 52 * 2 powi (e - 52) = 2 powi e"
  proof -
    have "(2::real) powi 52 * 2 powi (e - 52) = 2 powi (52 + (e - 52))"
      by (subst power_int_add) simp_all
    then show ?thesis by simp
  qed
  from b have "2 powi e \<le> real_of_int (rne (y / 2 powi (e - 52))) * 2 powi (e - 52)"
    unfolding a .
  then show ?thesis unfolding round_mag_def Let_def e_def .
qed

lemma round_mag_mono:
  assumes "0 \<le> a" and "a \<le> b"
  shows "round_mag a \<le> round_mag b"
proof (cases "binade 2045 a = binade 2045 b")
  case True
  have "a / 2 powi (binade 2045 b - 52) \<le> b / 2 powi (binade 2045 b - 52)"
    using assms(2) by (simp add: divide_right_mono)
  then have "rne (a / 2 powi (binade 2045 b - 52)) \<le> rne (b / 2 powi (binade 2045 b - 52))"
    by (rule rne_mono)
  then show ?thesis unfolding round_mag_def Let_def True by (simp add: mult_right_mono)
next
  case False
  with binade_mono [OF assms(2), of 2045] have lt: "binade 2045 a < binade 2045 b" by simp
  with binade_range [of 2045 b] have "binade 2045 a < 1023" by simp
  from round_mag_upper [OF assms(1) this] have "round_mag a \<le> 2 powi (binade 2045 a + 1)" .
  also have "\<dots> \<le> 2 powi (binade 2045 b)" using lt by (intro power_int_increasing) simp_all
  also have "\<dots> \<le> round_mag b"
    using lt binade_range [of 2045 a] by (intro round_mag_lower) simp
  finally show ?thesis .
qed

lemma fl64_mono:
  assumes "x \<le> y"
  shows "fl64 x \<le> fl64 y"
proof -
  have "sgn x * round_mag \<bar>x\<bar> \<le> sgn y * round_mag \<bar>y\<bar>"
  proof (cases "0 \<le> x")
    case True
    with assms have "0 \<le> y" by simp
    show ?thesis
    proof (cases "x = 0")
      case True
      then show ?thesis using \<open>0 \<le> y\<close> round_mag_nonneg [of "\<bar>y\<bar>"]
        by (cases "y = 0") (simp_all add: sgn_if)
    next
      case False
      with \<open>0 \<le> x\<close> assms have "0 < x" "0 < y" by simp_all
      then show ?thesis using round_mag_mono [of x y] assms by (simp add: sgn_if)
    qed
  next
    case False
    then have neg: "x < 0" by simp
    show ?thesis
    proof (cases "y < 0")
      case True
      with neg assms have "round_mag \<bar>y\<bar> \<le> round_mag \<bar>x\<bar>"
        by (intro round_mag_mono) simp_all
      with neg True show ?thesis by (simp add: sgn_if)
    next
      case False
      then have "0 \<le> sgn y * round_mag \<bar>y\<bar>"
        using round_mag_nonneg [of "\<bar>y\<bar>"] by (cases "y = 0") (simp_all add: sgn_if)
      moreover have "sgn x * round_mag \<bar>x\<bar> \<le> 0"
        using neg round_mag_nonneg [of "\<bar>x\<bar>"] by (simp add: sgn_if)
      ultimately show ?thesis by linarith
    qed
  qed
  then show ?thesis unfolding fl64_def by (intro max.mono min.mono) simp_all
qed

lemma round_mag_exact:
  assumes "y = of_int m * 2 powi j" and "0 \<le> m" and "m < 2 ^ 53" and "- 1074 \<le> j"
  shows "round_mag y = y"
proof -
  define e where "e = binade 2045 y"
  have u: "(0::real) < 2 powi (e - 52)" by simp
  have ej: "e - 52 \<le> j"
  proof (cases "- 1022 < e")
    case True
    then have "2 powi e \<le> y" unfolding e_def by (rule binade_lower)
    also have "y < 2 ^ 53 * 2 powi j"
    proof -
      have "real_of_int m < 2 ^ 53" using assms(3) by (metis of_int_less_iff of_int_numeral of_int_power)
      then show ?thesis unfolding assms(1) by (simp add: mult_strict_right_mono)
    qed
    also have "(2::real) ^ 53 * 2 powi j = 2 powi (53 + j)"
    proof -
      have "(2::real) powi 53 * 2 powi j = 2 powi (53 + j)" by (subst power_int_add) simp_all
      then show ?thesis by simp
    qed
    finally have "(2::real) powi e < 2 powi (53 + j)" .
    have "e < 53 + j"
    proof (rule ccontr)
      assume "\<not> e < 53 + j"
      then have "(2::real) powi (53 + j) \<le> 2 powi e" by (intro power_int_increasing) simp_all
      with \<open>(2::real) powi e < 2 powi (53 + j)\<close> show False by simp
    qed
    then show ?thesis by simp
  next
    case False
    with binade_range [of 2045 y] have "e = - 1022" unfolding e_def by simp
    with assms(4) show ?thesis by simp
  qed
  then obtain n where n: "j - (e - 52) = int n" by (metis diff_ge_0_iff_ge nonneg_int_cases)
  have "y / 2 powi (e - 52) = of_int m * (2 powi j / 2 powi (e - 52))"
    unfolding assms(1) by simp
  also have "(2::real) powi j / 2 powi (e - 52) = 2 powi (j - (e - 52))"
    by (simp add: power_int_diff)
  also have "\<dots> = 2 ^ n" unfolding n by simp
  finally have q: "y / 2 powi (e - 52) = of_int (m * 2 ^ n)" by simp
  have "round_mag y = of_int (rne (y / 2 powi (e - 52))) * 2 powi (e - 52)"
    by (simp add: round_mag_def Let_def e_def)
  also have "\<dots> = (y / 2 powi (e - 52)) * 2 powi (e - 52)"
    unfolding q rne_of_int ..
  also have "\<dots> = y" using u by simp
  finally show ?thesis .
qed

lemma fl64_exact:
  assumes "x = of_int m * 2 powi j" and "\<bar>m\<bar> < 2 ^ 53" and "- 1074 \<le> j" and "\<bar>x\<bar> \<le> 2 ^ 1024"
  shows "fl64 x = x"
proof -
  have "\<bar>x\<bar> = of_int \<bar>m\<bar> * 2 powi j" unfolding assms(1) by (simp add: abs_mult)
  from round_mag_exact [OF this _ assms(2,3)] have "round_mag \<bar>x\<bar> = \<bar>x\<bar>" by simp
  then have "sgn x * round_mag \<bar>x\<bar> = x" by (simp add: sgn_if)
  then show ?thesis using assms(4) unfolding fl64_def by simp
qed

lemma fl64_of_int:
  assumes "\<bar>m\<bar> \<le> 2 ^ 53"
  shows "fl64 (of_int m) = of_int m"
proof (cases "\<bar>m\<bar> = 2 ^ 53")
  case True
  then have "m = 2 ^ 53 \<or> m = - (2 ^ 53)" by linarith
  then have "real_of_int m = of_int (m div 2 ^ 53) * 2 powi 53" by auto
  moreover from \<open>m = 2 ^ 53 \<or> m = - (2 ^ 53)\<close> have "\<bar>m div 2 ^ 53\<bar> < 2 ^ 53" by auto
  moreover from True have "\<bar>real_of_int m\<bar> \<le> 2 ^ 1024" by simp
  ultimately show ?thesis by (intro fl64_exact [of _ "m div 2 ^ 53" 53]) simp_all
next
  case False
  with assms have lt: "\<bar>m\<bar> < 2 ^ 53" by simp
  then have "real_of_int \<bar>m\<bar> < 2 ^ 53" by (metis of_int_less_iff of_int_numeral of_int_power)
  then have "\<bar>real_of_int m\<bar> \<le> 2 ^ 1024" by simp
  with lt show ?thesis by (intro fl64_exact [of _ m 0]) simp_all
qed

lemma fl64_of_nat: "n \<le> 2 ^ 53 \<Longrightarrow> fl64 (real n) = real n"
  using fl64_of_int [of "int n"] by simp

lemma fl64_eval_pos:
  assumes "- 1022 \<le> e" and "e \<le> 1022" and "2 powi e \<le> x" and "x < 2 powi (e + 1)"
  shows "fl64 x = of_int (rne (x / 2 powi (e - 52))) * 2 powi (e - 52)"
proof -
  have pos: "0 < x" using assms(3) by (meson less_le_trans zero_less_numeral zero_less_power_int)
  have b: "binade 2045 x = e" using assms by (intro binade_eq) simp_all
  have ev: "round_mag x = of_int (rne (x / 2 powi (e - 52))) * 2 powi (e - 52)"
    using assms by (intro round_mag_eval) simp_all
  have "0 \<le> round_mag x" using pos by (intro round_mag_nonneg) simp
  moreover have "round_mag x \<le> 2 powi (e + 1)"
    using round_mag_upper [of x] pos b assms(2) by simp
  moreover have "(2::real) powi (e + 1) \<le> 2 powi 1024"
    using assms(2) by (intro power_int_increasing) simp_all
  ultimately have "0 \<le> round_mag x \<and> round_mag x \<le> 2 ^ 1024" by simp
  then have "fl64 x = round_mag x" using pos unfolding fl64_def by (simp add: sgn_if)
  then show ?thesis by (simp only: ev)
qed

lemma fl64_7_100: "fl64 (7 / 100) = 5044031582654956 / 2 ^ 56"
proof -
  have "fl64 (7 / 100) = of_int (rne ((7 / 100) / 2 powi (- 4 - 52))) * 2 powi (- 4 - 52)"
    by (rule fl64_eval_pos) (simp_all add: power_int_minus)
  also have "(7 / 100 :: real) / 2 powi (- 4 - 52) = 126100789566373888 / 25"
    by (simp add: power_int_minus)
  also have "rne (126100789566373888 / 25) = 5044031582654956"
    by (simp add: rne_def Let_def)
  finally show ?thesis by (simp add: power_int_minus)
qed

lemma fl64_7_100_100: "fl64 (5044031582654956 / 2 ^ 56 * 100) = 7881299347898369 / 2 ^ 50"
proof -
  have "fl64 (5044031582654956 / 2 ^ 56 * 100)
      = of_int (rne ((5044031582654956 / 2 ^ 56 * 100) / 2 powi (2 - 52))) * 2 powi (2 - 52)"
    by (rule fl64_eval_pos) (simp_all add: power_int_minus)
  also have "(5044031582654956 / 2 ^ 56 * 100 :: real) / 2 powi (2 - 52) = 31525197391593475 / 4"
    by (simp add: power_int_minus)
  also have "rne (31525197391593475 / 4) = 7881299347898369"
    by (simp add: rne_def Let_def)
  finally show ?thesis by (simp add: power_int_minus)
qed

lemma fl64_absorb: "fl64 (10 ^ 21 + 10000) = 10 ^ 21"
proof -
  have "fl64 (10 ^ 21 + 10000)
      = of_int (rne ((10 ^ 21 + 10000) / 2 powi (69 - 52))) * 2 powi (69 - 52)"
    by (rule fl64_eval_pos) simp_all
  also have "(10 ^ 21 + 10000 :: real) / 2 powi (69 - 52) = 62500000000000000625 / 8192"
    by simp
  also have "rne (62500000000000000625 / 8192) = 7629394531250000"
    by (simp add: rne_def Let_def)
  finally show ?thesis by simp
qed

lemma fl64_Ints:
  assumes "x \<in> \<int>" and "\<bar>x\<bar> \<le> 2 ^ 53"
  shows "fl64 x = x"
proof -
  from assms(1) obtain m where m: "x = of_int m" by (rule Ints_cases)
  with assms(2) have "real_of_int \<bar>m\<bar> \<le> real_of_int (2 ^ 53)" by simp
  then have "\<bar>m\<bar> \<le> 2 ^ 53" by (simp only: of_int_le_iff)
  then show ?thesis unfolding m by (rule fl64_of_int)
qed

lemma fl64_half_nat:
  assumes "n < 2 ^ 53"
  shows "fl64 (1 / 2 * real n) = 1 / 2 * real n"
proof (rule fl64_exact [of _ "int n" "- 1"])
  show "1 / 2 * real n = real_of_int (int n) * 2 powi - 1" by (simp add: power_int_minus)
  show "\<bar>int n\<bar> < 2 ^ 53" using assms by simp
  show "(- 1074 :: int) \<le> - 1" by simp
  have "real n < 2 ^ 53" using assms by (metis of_nat_less_iff of_nat_numeral of_nat_power)
  then show "\<bar>1 / 2 * real n\<bar> \<le> 2 ^ 1024" by simp
qed

lemma fl64_half: "fl64 (1 / 2) = 1 / 2"
  using fl64_half_nat [of 1] by simp

lemma fl64_one: "fl64 1 = 1"
  using fl64_of_nat [of 1] by simp

lemma rne_near:
  assumes "0 \<le> r" and "r < 1 / 2"
  shows "rne (of_int M + r) = M"
proof -
  have "\<lfloor>real_of_int M + r\<rfloor> = M" using assms by (intro floor_unique) simp_all
  then show ?thesis using assms(2) by (simp add: rne_def Let_def)
qed

lemma fl64_round_down:
  assumes "0 \<le> e" and "e \<le> 52" and "2 powi e \<le> real_of_int k"
    and "real_of_int k + d < 2 powi (e + 1)" and "0 \<le> d" and "d < 2 powi (e - 53)"
  shows "fl64 (real_of_int k + d) = real_of_int k"
proof -
  have le: "2 powi e \<le> real_of_int k + d" using assms(3,5) by simp
  have ev: "fl64 (real_of_int k + d)
      = of_int (rne ((real_of_int k + d) / 2 powi (e - 52))) * 2 powi (e - 52)"
    using assms(1,2) le assms(4) by (intro fl64_eval_pos) simp_all
  have u: "(2::real) powi (e - 52) = 1 / 2 ^ nat (52 - e)"
    using assms(2) power_int_minus [of "2::real" "52 - e"] by (simp add: power_int_def field_simps)
  have h: "(2::real) powi (e - 53) = 2 powi (e - 52) / 2"
    using power_int_add [of "2::real" "e - 52" "- 1"] by (simp add: power_int_minus)
  have "(real_of_int k + d) / 2 powi (e - 52)
      = real_of_int (k * 2 ^ nat (52 - e)) + d / 2 powi (e - 52)"
    by (simp add: u field_simps)
  moreover have "0 \<le> d / 2 powi (e - 52)" using assms(5) by simp
  moreover have "d / 2 powi (e - 52) < 1 / 2"
    using assms(6) unfolding h by (simp add: field_simps)
  ultimately have "rne ((real_of_int k + d) / 2 powi (e - 52)) = k * 2 ^ nat (52 - e)"
    by (simp only: rne_near)
  then show ?thesis unfolding ev by (simp add: u)
qed

lemma int_binade:
  assumes "1 \<le> K" and "K < 2 ^ 32"
  obtains e where "0 \<le> e" and "e \<le> 52" and "2 powi e \<le> real_of_int K"
    and "real_of_int K < 2 powi (e + 1)"
proof -
  define e where "e = binade 2045 (real_of_int K)"
  have one: "binade 2045 (1::real) = 0" by (rule binade_eq) simp_all
  have "binade 2045 (1::real) \<le> binade 2045 (real_of_int K)"
    using assms(1) by (intro binade_mono) simp
  then have e0: "0 \<le> e" unfolding e_def one .
  then have lo: "2 powi e \<le> real_of_int K" unfolding e_def by (intro binade_lower) simp
  have K32: "real_of_int K < 2 powi 32" using assms(2) by (simp add: of_int_less_numeral_power_cancel_iff)
  have e32: "e < 32"
  proof (rule ccontr)
    assume "\<not> e < 32"
    then have "(2::real) powi 32 \<le> 2 powi e" by (intro power_int_increasing) simp_all
    with lo K32 show False by simp
  qed
  then have "real_of_int K < 2 powi (e + 1)" unfolding e_def by (intro binade_upper) simp
  with e0 e32 lo show ?thesis by (intro that [of e]) simp_all
qed

lemma fl64_above_rank:
  assumes "1 \<le> K" and "K < 2 ^ 32" and "real_of_int K - 1 + 1 / 128 \<le> x"
  shows "real_of_int K - 1 < fl64 x"
proof -
  have "fl64 (real_of_int (128 * (K - 1) + 1) * 2 powi (- 7)) = real_of_int (128 * (K - 1) + 1) * 2 powi (- 7)"
  proof (rule fl64_exact [OF refl])
    show "\<bar>128 * (K - 1) + 1\<bar> < 2 ^ 53" using assms(1,2) by simp
    show "(- 1074 :: int) \<le> - 7" by simp
    have "real_of_int (128 * (K - 1) + 1) < real_of_int (2 ^ 53)"
      using assms(1,2) by (simp only: of_int_less_iff) simp
    then show "\<bar>real_of_int (128 * (K - 1) + 1) * 2 powi - 7\<bar> \<le> 2 ^ 1024"
      using assms(1) by (simp add: power_int_minus abs_mult)
  qed
  moreover have "real_of_int (128 * (K - 1) + 1) * 2 powi (- 7) = real_of_int K - 1 + 1 / 128"
    by (simp add: power_int_minus field_simps)
  ultimately have "fl64 (real_of_int K - 1 + 1 / 128) = real_of_int K - 1 + 1 / 128"
    by (simp only:)
  moreover have "fl64 (real_of_int K - 1 + 1 / 128) \<le> fl64 x" using assms(3) by (rule fl64_mono)
  ultimately show ?thesis by linarith
qed

lemma fl64_90_100: "fl64 (90 / 100) = 8106479329266893 / 2 ^ 53"
proof -
  have "fl64 (90 / 100) = of_int (rne ((90 / 100) / 2 powi (- 1 - 52))) * 2 powi (- 1 - 52)"
    by (rule fl64_eval_pos) (simp_all add: power_int_minus)
  also have "(90 / 100 :: real) / 2 powi (- 1 - 52) = 40532396646334464 / 5"
    by (simp add: power_int_minus)
  also have "rne (40532396646334464 / 5) = 8106479329266893"
    by (simp add: rne_def Let_def)
  finally show ?thesis by (simp add: power_int_minus)
qed

lemma fl64_95_100: "fl64 (95 / 100) = 8556839292003942 / 2 ^ 53"
proof -
  have "fl64 (95 / 100) = of_int (rne ((95 / 100) / 2 powi (- 1 - 52))) * 2 powi (- 1 - 52)"
    by (rule fl64_eval_pos) (simp_all add: power_int_minus)
  also have "(95 / 100 :: real) / 2 powi (- 1 - 52) = 42784196460019712 / 5"
    by (simp add: power_int_minus)
  also have "rne (42784196460019712 / 5) = 8556839292003942"
    by (simp add: rne_def Let_def)
  finally show ?thesis by (simp add: power_int_minus)
qed

lemma fl64_99_100: "fl64 (99 / 100) = 8917127262193582 / 2 ^ 53"
proof -
  have "fl64 (99 / 100) = of_int (rne ((99 / 100) / 2 powi (- 1 - 52))) * 2 powi (- 1 - 52)"
    by (rule fl64_eval_pos) (simp_all add: power_int_minus)
  also have "(99 / 100 :: real) / 2 powi (- 1 - 52) = 222928181554839552 / 25"
    by (simp add: power_int_minus)
  also have "rne (222928181554839552 / 25) = 8917127262193582"
    by (simp add: rne_def Let_def)
  finally show ?thesis by (simp add: power_int_minus)
qed

subsection \<open>Statistics helpers\<close>

lemma Math_max_eq_Max: "xs \<noteq> [] \<Longrightarrow> Math_max xs = Max (set xs)"
proof (cases xs)
  case (Cons a list)
  then show ?thesis using Max.set_eq_fold [of a list] by (simp del: set_simps)
qed simp

lemma Math_min_eq_Min: "xs \<noteq> [] \<Longrightarrow> Math_min xs = Min (set xs)"
proof (cases xs)
  case (Cons a list)
  then show ?thesis using Min.set_eq_fold [of a list] by (simp del: set_simps)
qed simp

lemma percentile_index_upper:
  assumes "xs \<noteq> []" and "length xs \<le> 2 ^ 53" and "p \<le> 100"
  shows "\<lceil>fl64 (fl64 (p / 100) * real (length xs))\<rceil> - 1 < int (length xs)"
proof -
  have "p / 100 \<le> 1" using assms(3) by simp
  then have "fl64 (p / 100) \<le> fl64 1" by (rule fl64_mono)
  then have "fl64 (p / 100) \<le> 1" by (simp only: fl64_one)
  then have "fl64 (p / 100) * real (length xs) \<le> 1 * real (length xs)"
    by (intro mult_right_mono) simp_all
  then have "fl64 (fl64 (p / 100) * real (length xs)) \<le> fl64 (real (length xs))"
    by (intro fl64_mono) simp
  also have "fl64 (real (length xs)) = real (length xs)"
    using assms(2) by (rule fl64_of_nat)
  finally have "\<lceil>fl64 (fl64 (p / 100) * real (length xs))\<rceil> \<le> int (length xs)"
    by (simp add: ceiling_le_iff)
  then show ?thesis by simp
qed

lemma percentile_in_range:
  assumes "xs \<noteq> []" and "length xs \<le> 2 ^ 53" and "p \<le> 100"
  shows "percentile xs p
         = Some (xs ! nat (max 0 (\<lceil>fl64 (fl64 (p / 100) * real (length xs))\<rceil> - 1)))"
proof -
  have "0 < int (length xs)" using assms(1) by simp
  with percentile_index_upper [OF assms]
  have "nat (max 0 (\<lceil>fl64 (fl64 (p / 100) * real (length xs))\<rceil> - 1)) < length xs"
    by (simp add: max_def nat_less_iff)
  then show ?thesis using assms(1) by (simp add: percentile_def array_get_def Let_def)
qed

lemma percentile_defined:
  "xs \<noteq> [] \<Longrightarrow> length xs \<le> 2 ^ 53 \<Longrightarrow> p \<le> 100 \<Longrightarrow> \<exists>v. percentile xs p = Some v"
  by (simp add: percentile_in_range)

text \<open>Above 100 the index can leave the array, and the source returns \<open>undefined\<close>.\<close>

lemma percentile_index:
  "xs \<noteq> [] \<Longrightarrow> fl64 (fl64 (p / 100) * real (length xs)) = v \<Longrightarrow>
   percentile xs p = array_get xs (max 0 (\<lceil>v\<rceil> - 1))"
  by (simp add: percentile_def Let_def)

lemma percentile_150_undefined: "percentile [1] 150 = None"
proof -
  have e: "fl64 (3 / 2) = 3 / 2"
    by (rule fl64_exact [of _ 3 "- 1"]) (simp_all add: power_int_minus)
  have q: "(150 :: real) / 100 = 3 / 2" by simp
  have "fl64 (fl64 (150 / 100) * real (length [1 :: real])) = fl64 (fl64 (3 / 2) * 1)"
    by (simp only: q list.size of_nat_Suc of_nat_0 add_0_left add_0_right One_nat_def)
  also have "\<dots> = fl64 (3 / 2)" by (simp only: e mult_1_right)
  also have "\<dots> = 3 / 2" by (rule e)
  finally have "percentile [1] 150 = array_get [1] (max 0 (\<lceil>3 / 2 :: real\<rceil> - 1))"
    by (intro percentile_index) simp_all
  also have "\<lceil>3 / 2 :: real\<rceil> = 2" by simp
  finally show ?thesis by (simp add: array_get_def)
qed

lemma percentile_100_last:
  assumes "xs \<noteq> []" and "length xs \<le> 2 ^ 53"
  shows "percentile xs 100 = Some (last xs)"
proof -
  have "fl64 (fl64 (100 / 100) * real (length xs)) = real (length xs)"
    using assms(2) by (simp add: fl64_one fl64_of_nat)
  moreover have "nat (max 0 (int (length xs) - 1)) = length xs - 1"
    using assms(1) by (simp add: max_def nat_diff_distrib)
  ultimately show ?thesis
    using percentile_in_range [OF assms, of 100] assms(1) by (simp add: last_conv_nth)
qed

lemma percentile_50_exact:
  assumes "xs \<noteq> []" and "length xs < 2 ^ 53"
  shows "percentile xs 50 = Some (xs ! nat (max 0 (\<lceil>(50 / 100) * real (length xs)\<rceil> - 1)))"
proof -
  have q: "(50 :: real) / 100 = 1 / 2" by simp
  have "fl64 (fl64 (50 / 100) * real (length xs)) = fl64 (fl64 (1 / 2) * real (length xs))"
    by (simp only: q)
  also have "\<dots> = fl64 (1 / 2 * real (length xs))" by (simp only: fl64_half)
  also have "\<dots> = 1 / 2 * real (length xs)" using assms(2) by (rule fl64_half_nat)
  also have "\<dots> = 50 / 100 * real (length xs)" by (simp only: q)
  finally have v: "fl64 (fl64 (50 / 100) * real (length xs)) = 50 / 100 * real (length xs)" .
  have le: "length xs \<le> 2 ^ 53" using assms(2) by simp
  have p: "(50 :: real) \<le> 100" by simp
  show ?thesis using percentile_in_range [OF assms(1) le p] unfolding v .
qed

lemma sorted_last_Max:
  fixes xs :: "real list"
  assumes "xs \<noteq> []" and "sorted xs"
  shows "last xs = Max (set xs)"
proof -
  have "y \<le> last xs" if "y \<in> set xs" for y
  proof -
    from that obtain i where "i < length xs" "xs ! i = y" by (auto simp: in_set_conv_nth)
    then show ?thesis using assms sorted_nth_mono [of xs i "length xs - 1"]
      by (simp add: last_conv_nth)
  qed
  moreover have "last xs \<in> set xs" using assms(1) by simp
  ultimately show ?thesis using Max_eqI [of "set xs" "last xs"] by simp
qed

lemma percentile_7_of_100: "percentile (map real [1..<101]) 7 = Some 8"
proof -
  have n: "real (length (map real [1..<101])) = 100" by simp
  have "fl64 (fl64 (7 / 100) * real (length (map real [1..<101])))
        = fl64 (5044031582654956 / 2 ^ 56 * 100)"
    by (simp only: n fl64_7_100)
  also have "\<dots> = 7881299347898369 / 2 ^ 50" by (rule fl64_7_100_100)
  finally have "percentile (map real [1..<101]) 7
      = array_get (map real [1..<101]) (max 0 (\<lceil>7881299347898369 / 2 ^ 50 :: real\<rceil> - 1))"
    by (intro percentile_index) simp_all
  also have "\<lceil>7881299347898369 / 2 ^ 50 :: real\<rceil> = 8" by simp
  finally show ?thesis by (simp add: array_get_def)
qed

lemma rank_gap:
  fixes a n :: nat
  assumes "K = \<lceil>real a / 100 * real n\<rceil>"
  shows "real_of_int K - 1 + 1 / 100 \<le> real a / 100 * real n" and "real a / 100 * real n \<le> real_of_int K"
proof -
  show up: "real a / 100 * real n \<le> real_of_int K" unfolding assms by (rule le_of_int_ceiling)
  have "real_of_int K - 1 < real a / 100 * real n" unfolding assms by linarith
  then have "real_of_int (100 * (K - 1)) < real_of_int (int (a * n))" by simp
  then have "100 * (K - 1) < int (a * n)" by (simp only: of_int_less_iff)
  then have "100 * (K - 1) + 1 \<le> int (a * n)" by simp
  then have "real_of_int (100 * (K - 1) + 1) \<le> real_of_int (int (a * n))"
    by (simp only: of_int_le_iff)
  then show "real_of_int K - 1 + 1 / 100 \<le> real a / 100 * real n" by simp
qed

lemma ceiling_product_below:
  fixes a n :: nat
  assumes "0 < n" and "n < 2 ^ 32" and "0 < a" and "a \<le> 100"
    and "c \<le> real a / 100" and "real a / 100 - 2 powi (- 53) \<le> c"
  shows "\<lceil>fl64 (c * real n)\<rceil> = \<lceil>real a / 100 * real n\<rceil>"
proof -
  define K where "K = \<lceil>real a / 100 * real n\<rceil>"
  note g = rank_gap [OF K_def]
  have pos: "0 < real a / 100 * real n" using assms(1,3) by simp
  then have K1: "1 \<le> K" unfolding K_def by simp
  have "real a / 100 * real n \<le> 1 * real n" using assms(4) by (intro mult_right_mono) simp_all
  then have "K \<le> int n" unfolding K_def by (simp add: ceiling_le_iff)
  with assms(2) have K32: "K < 2 ^ 32" by simp
  have "c * real n \<le> real a / 100 * real n" using assms(5) by (intro mult_right_mono) simp_all
  with g(2) have "c * real n \<le> real_of_int K" by simp
  then have "fl64 (c * real n) \<le> fl64 (real_of_int K)" by (rule fl64_mono)
  moreover have "fl64 (real_of_int K) = real_of_int K" using K1 K32 by (intro fl64_of_int) simp
  ultimately have up: "fl64 (c * real n) \<le> real_of_int K" by simp
  have "real n < 2 ^ 32" using assms(2) by (metis of_nat_less_iff of_nat_numeral of_nat_power)
  then have "2 powi (- 53) * real n \<le> 2 powi (- 53) * 2 ^ 32" by (intro mult_left_mono) simp_all
  moreover have "(real a / 100 - 2 powi (- 53)) * real n \<le> c * real n"
    using assms(6) by (intro mult_right_mono) simp_all
  ultimately have "real a / 100 * real n - 2 powi (- 53) * 2 ^ 32 \<le> c * real n"
    by (simp add: algebra_simps)
  moreover have "(2::real) powi (- 53) * 2 ^ 32 \<le> 1 / 100 - 1 / 128" by (simp add: power_int_minus)
  ultimately have "real_of_int K - 1 + 1 / 128 \<le> c * real n" using g(1) by linarith
  from fl64_above_rank [OF K1 K32 this] have "real_of_int K - 1 < fl64 (c * real n)" .
  with up have "\<lceil>fl64 (c * real n)\<rceil> = K" by (intro ceiling_unique) simp_all
  then show ?thesis by (simp only: K_def)
qed

lemma ceiling_product_90:
  fixes n :: nat
  assumes "0 < n" and "n < 2 ^ 32"
  shows "\<lceil>fl64 (8106479329266893 / 2 ^ 53 * real n)\<rceil> = \<lceil>real 90 / 100 * real n\<rceil>"
proof -
  define K where "K = \<lceil>real 90 / 100 * real n\<rceil>"
  define d where "d = real n / (5 * 2 ^ 53)"
  note g = rank_gap [OF K_def]
  have x: "8106479329266893 / 2 ^ 53 * real n = real 90 / 100 * real n + d"
    unfolding d_def by simp
  have pos: "0 < real 90 / 100 * real n" using assms(1) by simp
  then have K1: "1 \<le> K" unfolding K_def by simp
  have "real 90 / 100 * real n \<le> 1 * real n" by (intro mult_right_mono) simp_all
  then have "K \<le> int n" unfolding K_def by (simp add: ceiling_le_iff)
  with assms(2) have K32: "K < 2 ^ 32" by simp
  have n32: "real n < 2 ^ 32" using assms(2) by (metis of_nat_less_iff of_nat_numeral of_nat_power)
  have d0: "0 \<le> d" unfolding d_def by simp
  have dsmall: "d < 1 / 2 ^ 23" using n32 unfolding d_def by simp
  have "real_of_int K - 1 + 1 / 128 \<le> real 90 / 100 * real n + d" using g(1) d0 by linarith
  from fl64_above_rank [OF K1 K32 this]
  have low: "real_of_int K - 1 < fl64 (real 90 / 100 * real n + d)" .
  have fK: "fl64 (real_of_int K) = real_of_int K" using K1 K32 by (intro fl64_of_int) simp
  have up: "fl64 (real 90 / 100 * real n + d) \<le> real_of_int K"
  proof (cases "real 90 / 100 * real n = real_of_int K")
    case True
    obtain e where e: "0 \<le> e" "e \<le> 52" "2 powi e \<le> real_of_int K"
      "real_of_int K < 2 powi (e + 1)"
      using int_binade [OF K1 K32] by blast
    have dK: "d = real_of_int K * 2 / (9 * 2 ^ 53)" unfolding d_def using True by simp
    have h: "(2::real) powi (e - 53) = 2 powi (e + 1) / 2 ^ 54"
      using power_int_add [of "2::real" "e + 1" "- 54"] by (simp add: power_int_minus)
    have "d < 2 powi (e + 1) * 2 / (9 * 2 ^ 53)" unfolding dK using e(4) by simp
    also have "\<dots> \<le> 2 powi (e - 53)" unfolding h by simp
    finally have dh: "d < 2 powi (e - 53)" .
    have "real_of_int (K + 1) \<le> 2 powi (e + 1)"
    proof -
      have "(2::real) powi (e + 1) = real_of_int (2 ^ nat (e + 1))"
        using e(1) by (simp add: power_int_def)
      with e(4) have "K < 2 ^ nat (e + 1)" by (simp only: of_int_less_iff)
      then have "K + 1 \<le> 2 ^ nat (e + 1)" by simp
      then have "real_of_int (K + 1) \<le> real_of_int (2 ^ nat (e + 1))" by (simp only: of_int_le_iff)
      then show ?thesis using e(1) by (simp add: power_int_def)
    qed
    with dsmall have "real_of_int K + d < 2 powi (e + 1)" by simp
    from fl64_round_down [OF e(1,2,3) this d0 dh] show ?thesis unfolding True by simp
  next
    case False
    with g(2) have "real 90 / 100 * real n < real_of_int K" by simp
    then have "real_of_int (int (90 * n)) < real_of_int (100 * K)" by simp
    then have "int (90 * n) < 100 * K" by (simp only: of_int_less_iff)
    then have "int (90 * n) + 1 \<le> 100 * K" by simp
    then have "real_of_int (int (90 * n) + 1) \<le> real_of_int (100 * K)" by (simp only: of_int_le_iff)
    then have "real 90 / 100 * real n + 1 / 100 \<le> real_of_int K" by simp
    with dsmall have "real 90 / 100 * real n + d \<le> real_of_int K" by simp
    then have "fl64 (real 90 / 100 * real n + d) \<le> fl64 (real_of_int K)" by (rule fl64_mono)
    then show ?thesis unfolding fK .
  qed
  from low up have "\<lceil>fl64 (real 90 / 100 * real n + d)\<rceil> = K" by (intro ceiling_unique) simp_all
  then show ?thesis unfolding x K_def .
qed

lemma ceiling_product_90_100:
  assumes "0 < n" and "n < 2 ^ 32"
  shows "\<lceil>fl64 (fl64 (90 / 100) * real n)\<rceil> = \<lceil>90 / 100 * real n\<rceil>"
  using ceiling_product_90 [OF assms] by (simp only: fl64_90_100 of_nat_numeral)

lemma ceiling_product_95_100:
  assumes "0 < n" and "n < 2 ^ 32"
  shows "\<lceil>fl64 (fl64 (95 / 100) * real n)\<rceil> = \<lceil>95 / 100 * real n\<rceil>"
proof -
  have c: "8556839292003942 / 2 ^ 53 \<le> real 95 / 100" by simp
  have c': "real 95 / 100 - 2 powi (- 53) \<le> 8556839292003942 / 2 ^ 53" by (simp add: power_int_minus)
  have "\<lceil>fl64 (8556839292003942 / 2 ^ 53 * real n)\<rceil> = \<lceil>real 95 / 100 * real n\<rceil>"
    by (rule ceiling_product_below [OF assms _ _ c c']) simp_all
  then show ?thesis by (simp only: fl64_95_100 of_nat_numeral)
qed

lemma ceiling_product_99_100:
  assumes "0 < n" and "n < 2 ^ 32"
  shows "\<lceil>fl64 (fl64 (99 / 100) * real n)\<rceil> = \<lceil>99 / 100 * real n\<rceil>"
proof -
  have c: "8917127262193582 / 2 ^ 53 \<le> real 99 / 100" by simp
  have c': "real 99 / 100 - 2 powi (- 53) \<le> 8917127262193582 / 2 ^ 53" by (simp add: power_int_minus)
  have "\<lceil>fl64 (8917127262193582 / 2 ^ 53 * real n)\<rceil> = \<lceil>real 99 / 100 * real n\<rceil>"
    by (rule ceiling_product_below [OF assms _ _ c c']) simp_all
  then show ?thesis by (simp only: fl64_99_100 of_nat_numeral)
qed

lemma percentile_requested_exact:
  assumes "xs \<noteq> []" and "length xs < 2 ^ 32" and "p = 90 \<or> p = 95 \<or> p = 99"
  shows "percentile xs p = Some (xs ! nat (max 0 (\<lceil>(p / 100) * real (length xs)\<rceil> - 1)))"
proof -
  have n: "0 < length xs" using assms(1) by simp
  have v: "\<lceil>fl64 (fl64 (p / 100) * real (length xs))\<rceil> = \<lceil>p / 100 * real (length xs)\<rceil>"
    using assms(3) ceiling_product_90_100 [OF n assms(2)] ceiling_product_95_100 [OF n assms(2)]
      ceiling_product_99_100 [OF n assms(2)] by (elim disjE) (simp_all only:)
  have le: "length xs \<le> 2 ^ 53"
  proof -
    have "(2::nat) ^ 32 \<le> 2 ^ 53" by (intro power_increasing) simp_all
    with assms(2) show ?thesis by simp
  qed
  have p: "p \<le> 100" using assms(3) by auto
  show ?thesis using percentile_in_range [OF assms(1) le p] unfolding v .
qed

text \<open>
  C1, as the source has it. \<open>percentile\<close> of the empty sequence is 0 for every \<open>p\<close>. On a
  non-empty sequence of length \<open>n\<close> (an array) and a percentile \<open>p\<close> (at most 100) the
  result is the element at index \<open>ceil(p/100 * n) - 1\<close> clamped to at least 0, an index
  inside the sequence, where the quotient and the product are those of doubles. For the
  percentiles the analyzer asks for that index is the exact nearest rank: for the median,
  \<open>p = 50\<close>, on every array, and for \<open>p = 90\<close>, \<open>95\<close> and \<open>99\<close> on fewer than \<open>2^32\<close>
  elements. \<open>percentile([10,20,30,40], 50) = 20\<close>, and on a non-empty sorted sequence
  \<open>percentile(xs, 100)\<close> is its maximum.
\<close>

theorem percentile_nearest_rank:
  "percentile [] p = Some 0 \<and>
   (xs \<noteq> [] \<and> length xs \<le> 2 ^ 53 \<and> p \<le> 100 \<longrightarrow>
      0 \<le> max 0 (\<lceil>fl64 (fl64 (p / 100) * real (length xs))\<rceil> - 1) \<and>
      nat (max 0 (\<lceil>fl64 (fl64 (p / 100) * real (length xs))\<rceil> - 1)) < length xs \<and>
      percentile xs p
        = Some (xs ! nat (max 0 (\<lceil>fl64 (fl64 (p / 100) * real (length xs))\<rceil> - 1)))) \<and>
   (xs \<noteq> [] \<and> length xs < 2 ^ 53 \<longrightarrow>
      percentile xs 50 = Some (xs ! nat (max 0 (\<lceil>(50 / 100) * real (length xs)\<rceil> - 1)))) \<and>
   (xs \<noteq> [] \<and> length xs < 2 ^ 32 \<and> (p = 90 \<or> p = 95 \<or> p = 99) \<longrightarrow>
      percentile xs p = Some (xs ! nat (max 0 (\<lceil>(p / 100) * real (length xs)\<rceil> - 1)))) \<and>
   percentile [10, 20, 30, 40] 50 = Some 20 \<and>
   (xs \<noteq> [] \<and> length xs \<le> 2 ^ 53 \<and> sorted xs \<longrightarrow> percentile xs 100 = Some (Max (set xs)))"
proof (intro conjI impI)
  show "percentile [] p = Some 0" by (simp add: percentile_def)
next
  assume h: "xs \<noteq> [] \<and> length xs \<le> 2 ^ 53 \<and> p \<le> 100"
  show "0 \<le> max 0 (\<lceil>fl64 (fl64 (p / 100) * real (length xs))\<rceil> - 1)" by simp
  have "0 < int (length xs)" using h by simp
  with percentile_index_upper [of xs p] h
  show "nat (max 0 (\<lceil>fl64 (fl64 (p / 100) * real (length xs))\<rceil> - 1)) < length xs"
    by (simp add: max_def nat_less_iff)
  show "percentile xs p
        = Some (xs ! nat (max 0 (\<lceil>fl64 (fl64 (p / 100) * real (length xs))\<rceil> - 1)))"
    using h by (simp add: percentile_in_range)
next
  assume "xs \<noteq> [] \<and> length xs < 2 ^ 53"
  then have "xs \<noteq> []" and "length xs < 2 ^ 53" by simp_all
  then show "percentile xs 50 = Some (xs ! nat (max 0 (\<lceil>(50 / 100) * real (length xs)\<rceil> - 1)))"
    by (rule percentile_50_exact)
next
  assume "xs \<noteq> [] \<and> length xs < 2 ^ 32 \<and> (p = 90 \<or> p = 95 \<or> p = 99)"
  then have "xs \<noteq> []" and "length xs < 2 ^ 32" and "p = 90 \<or> p = 95 \<or> p = 99" by simp_all
  then show "percentile xs p = Some (xs ! nat (max 0 (\<lceil>(p / 100) * real (length xs)\<rceil> - 1)))"
    by (rule percentile_requested_exact)
next
  have "percentile [10, 20, 30, 40] 50
        = Some ([10, 20, 30, 40] ! nat (max 0 (\<lceil>(50 / 100) * real (length [10, 20, 30, 40 :: real])\<rceil> - 1)))"
    by (rule percentile_50_exact) simp_all
  then show "percentile [10, 20, 30, 40] 50 = Some 20" by simp
next
  assume "xs \<noteq> [] \<and> length xs \<le> 2 ^ 53 \<and> sorted xs"
  then show "percentile xs 100 = Some (Max (set xs))"
    by (simp add: percentile_100_last sorted_last_Max)
qed

theorem percentile_nearest_rank_witness:
  "[10, 20, 30, 40] \<noteq> ([] :: real list) \<and> length [10, 20, 30, 40 :: real] \<le> 2 ^ 53 \<and>
   (50 :: real) \<le> 100 \<and> sorted [10, 20, 30, 40 :: real] \<and>
   percentile [10, 20, 30, 40] 50 = Some 20 \<and>
   percentile [10, 20, 30, 40] 100 = Some 40"
proof -
  note t = percentile_nearest_rank [of 50 "[10, 20, 30, 40]"]
  have ne: "[10, 20, 30, 40] \<noteq> ([] :: real list)"
    and len: "length [10, 20, 30, 40 :: real] \<le> 2 ^ 53"
    and srt: "sorted [10, 20, 30, 40 :: real]"
    by simp_all
  from t have a: "percentile [10, 20, 30, 40] 50 = Some 20"
    by (rule conjunct2 [THEN conjunct2, THEN conjunct2, THEN conjunct2, THEN conjunct1])
  from t have "[10, 20, 30, 40] \<noteq> ([] :: real list) \<and> length [10, 20, 30, 40 :: real] \<le> 2 ^ 53
      \<and> sorted [10, 20, 30, 40 :: real]
      \<longrightarrow> percentile [10, 20, 30, 40] 100 = Some (Max (set [10, 20, 30, 40]))"
    by (rule conjunct2 [THEN conjunct2, THEN conjunct2, THEN conjunct2, THEN conjunct2])
  with ne len srt have "percentile [10, 20, 30, 40] 100 = Some (Max (set [10, 20, 30, 40]))"
    by (simp only: simp_thms)
  then have b: "percentile [10, 20, 30, 40] 100 = Some 40" by simp
  from ne len srt a b show ?thesis by simp
qed

theorem percentile_exact_rank_counterexample:
  "percentile (map real [1..<101]) 7 = Some 8 \<and>
   map real [1..<101] ! nat (max 0 (\<lceil>(7 / 100) * real (length (map real [1..<101]))\<rceil> - 1)) = 7"
  using percentile_7_of_100 by simp

subsection \<open>Overall metrics\<close>

text \<open>
  C5. \<open>calculateMetrics\<close> of the empty sample sequence returns the summary whose
  numeric fields are all 0 (it raises nothing), and \<open>average\<close> of the empty sequence
  is 0.
\<close>

theorem calculateMetrics_empty:
  "calculateMetrics [] =
     \<lparr> totalRequests = 0, successfulRequests = 0, failedRequests = 0, errorRate = 0,
       averageResponseTime = 0, medianResponseTime = 0, minResponseTime = 0,
       maxResponseTime = 0, percentile90 = 0, percentile95 = 0, percentile99 = 0,
       throughput = 0, receivedKBPerSec = 0, sentKBPerSec = 0, avgBytes = 0,
       avgLatency = 0, avgConnectTime = 0 \<rparr> \<and>
   average [] = 0"
  by (simp add: calculateMetrics_def getEmptyMetrics_def average_def)

lemma foldl_plus_sum_list:
  fixes f :: "'a \<Rightarrow> real"
  shows "foldl (\<lambda>sum r. sum + f r) a xs = a + (\<Sum>r\<leftarrow>xs. f r)"
  by (induction xs arbitrary: a) simp_all

lemma calculateMetrics_rates:
  assumes "results \<noteq> []"
    and "S = (Math_max (map timestamp results) - Math_min (map timestamp results)) / 1000"
  shows "throughput (calculateMetrics results) = (if S > 0 then real (length results) / S else 0)"
    and "receivedKBPerSec (calculateMetrics results)
         = (if S > 0 then (\<Sum>r\<leftarrow>results. bytes r) / 1024 / S else 0)"
    and "sentKBPerSec (calculateMetrics results)
         = (if S > 0 then (\<Sum>r\<leftarrow>results. sentBytes r) / 1024 / S else 0)"
  using assms(1) unfolding calculateMetrics_def Let_def assms(2) foldl_plus_sum_list
  by simp_all

text \<open>
  C6. On a non-empty sample sequence the span is the largest timestamp minus the
  smallest, in seconds. When the span is not positive (all samples share one timestamp)
  \<open>throughput\<close>, \<open>receivedKBPerSec\<close> and \<open>sentKBPerSec\<close> are 0; when it is positive,
  the throughput is the count divided by the span and each bandwidth rate is the byte
  sum divided by 1024 and by the span.
\<close>

theorem calculateMetrics_span:
  "results \<noteq> [] \<longrightarrow>
     (let span = (Max (timestamp ` set results) - Min (timestamp ` set results)) / 1000;
          m = calculateMetrics results
      in (span \<le> 0 \<longrightarrow> throughput m = 0 \<and> receivedKBPerSec m = 0 \<and> sentKBPerSec m = 0) \<and>
         (0 < span \<longrightarrow>
            throughput m = real (length results) / span \<and>
            receivedKBPerSec m = (\<Sum>r\<leftarrow>results. bytes r) / 1024 / span \<and>
            sentKBPerSec m = (\<Sum>r\<leftarrow>results. sentBytes r) / 1024 / span))"
proof
  assume ne: "results \<noteq> []"
  define S where "S = (Max (timestamp ` set results) - Min (timestamp ` set results)) / 1000"
  have mx: "Math_max (map timestamp results) = Max (timestamp ` set results)"
    using ne Math_max_eq_Max [of "map timestamp results"] by simp
  have mn: "Math_min (map timestamp results) = Min (timestamp ` set results)"
    using ne Math_min_eq_Min [of "map timestamp results"] by simp
  have S: "S = (Math_max (map timestamp results) - Math_min (map timestamp results)) / 1000"
    by (simp only: S_def mx mn)
  note r = calculateMetrics_rates [OF ne S]
  have "(S \<le> 0 \<longrightarrow> throughput (calculateMetrics results) = 0
           \<and> receivedKBPerSec (calculateMetrics results) = 0
           \<and> sentKBPerSec (calculateMetrics results) = 0) \<and>
        (0 < S \<longrightarrow>
            throughput (calculateMetrics results) = real (length results) / S \<and>
            receivedKBPerSec (calculateMetrics results) = (\<Sum>r\<leftarrow>results. bytes r) / 1024 / S \<and>
            sentKBPerSec (calculateMetrics results) = (\<Sum>r\<leftarrow>results. sentBytes r) / 1024 / S)"
    by (simp only: r) simp
  then show "let span = (Max (timestamp ` set results) - Min (timestamp ` set results)) / 1000;
          m = calculateMetrics results
      in (span \<le> 0 \<longrightarrow> throughput m = 0 \<and> receivedKBPerSec m = 0 \<and> sentKBPerSec m = 0) \<and>
         (0 < span \<longrightarrow>
            throughput m = real (length results) / span \<and>
            receivedKBPerSec m = (\<Sum>r\<leftarrow>results. bytes r) / 1024 / span \<and>
            sentKBPerSec m = (\<Sum>r\<leftarrow>results. sentBytes r) / 1024 / span)"
    unfolding Let_def S_def .
qed

theorem calculateMetrics_span_witness:
  "[sample 1000 100 ''X'' True, sample 3000 200 ''X'' True] \<noteq> [] \<and>
   throughput (calculateMetrics [sample 1000 100 ''X'' True, sample 3000 200 ''X'' True]) = 1 \<and>
   receivedKBPerSec (calculateMetrics [sample 1000 100 ''X'' True, sample 3000 200 ''X'' True]) = 2 \<and>
   sentKBPerSec (calculateMetrics [sample 1000 100 ''X'' True, sample 3000 200 ''X'' True]) = 1 \<and>
   [sample 1000 100 ''X'' True, sample 1000 200 ''X'' True] \<noteq> [] \<and>
   throughput (calculateMetrics [sample 1000 100 ''X'' True, sample 1000 200 ''X'' True]) = 0 \<and>
   receivedKBPerSec (calculateMetrics [sample 1000 100 ''X'' True, sample 1000 200 ''X'' True]) = 0 \<and>
   sentKBPerSec (calculateMetrics [sample 1000 100 ''X'' True, sample 1000 200 ''X'' True]) = 0"
  using calculateMetrics_span [of "[sample 1000 100 ''X'' True, sample 3000 200 ''X'' True]"]
    calculateMetrics_span [of "[sample 1000 100 ''X'' True, sample 1000 200 ''X'' True]"]
  by (simp add: sample_def Let_def)

subsection \<open>Bottlenecks\<close>

lemma mset_checkEndpoint:
  "mset (checkEndpoint bs e) =
     mset bs
     + (if ep_average e > 2000 then {#spec_slow e#} else {#})
     + (if ep_errorRate e > 5 then {#spec_errors e#} else {#})
     + (if ep_percentile95 e > 1000 then {#spec_latency e#} else {#})"
  by (simp add: checkEndpoint_def Let_def spec_slow_def spec_errors_def spec_latency_def
      spec_tier_def)

lemma mset_foldl_checkEndpoint:
  "mset (foldl checkEndpoint bs es) =
     mset bs
     + image_mset spec_slow (filter_mset (\<lambda>e. ep_average e > 2000) (mset es))
     + image_mset spec_errors (filter_mset (\<lambda>e. ep_errorRate e > 5) (mset es))
     + image_mset spec_latency (filter_mset (\<lambda>e. ep_percentile95 e > 1000) (mset es))"
proof (induction es arbitrary: bs)
  case Nil
  show ?case by simp
next
  case (Cons e es)
  show ?case unfolding foldl_Cons Cons.IH mset_checkEndpoint by simp
qed

lemma spec_tier_not_Low: "spec_tier v c h \<noteq> Low"
  by (simp add: spec_tier_def)

lemma spec_bottlenecks_not_Low:
  assumes "b \<in># spec_bottlenecks m es"
  shows "b_severity b \<noteq> Low"
proof -
  from assms have "(\<exists>e. b = spec_slow e) \<or> (\<exists>e. b = spec_errors e)
      \<or> (\<exists>e. b = spec_latency e) \<or> b = spec_overall m"
    by (auto simp: spec_bottlenecks_def split: if_splits)
  then show ?thesis
    by (auto simp: spec_slow_def spec_errors_def spec_latency_def spec_overall_def
        spec_tier_not_Low)
qed

text \<open>
  C2. \<open>identifyBottlenecks\<close> emits exactly the entries of the classification table: a
  slow-endpoint entry for each endpoint with average above 2000, a high-error-rate entry
  for each endpoint with error rate above 5, a high-latency entry for each endpoint with
  95th percentile above 1000, each with the severity of its tier, and one more
  high-error-rate entry labelled "All endpoints" exactly when the overall error rate is
  above 5; nothing else, and never the severity \<open>Low\<close>.
\<close>

theorem identifyBottlenecks_exact:
  "mset (identifyBottlenecks metrics endpointMetrics) = spec_bottlenecks metrics endpointMetrics \<and>
   (\<forall>b \<in> set (identifyBottlenecks metrics endpointMetrics). b_severity b \<noteq> Low)"
proof -
  have eq: "mset (identifyBottlenecks metrics endpointMetrics)
            = spec_bottlenecks metrics endpointMetrics"
    unfolding identifyBottlenecks_def Let_def mset_sort spec_bottlenecks_def
    by (simp add: mset_foldl_checkEndpoint spec_overall_def spec_tier_def)
  have "b_severity b \<noteq> Low" if "b \<in> set (identifyBottlenecks metrics endpointMetrics)" for b
  proof -
    from that have "b \<in># mset (identifyBottlenecks metrics endpointMetrics)" by simp
    then show ?thesis unfolding eq by (rule spec_bottlenecks_not_Low)
  qed
  with eq show ?thesis by blast
qed

theorem identifyBottlenecks_exact_witness:
  "identifyBottlenecks healthyMetrics [endpointX]
     = [spec_errors endpointX, spec_latency endpointX, spec_slow endpointX] \<and>
   b_severity (spec_errors endpointX) = Critical \<and>
   b_severity (spec_latency endpointX) = Critical \<and>
   b_severity (spec_slow endpointX) = Medium \<and>
   spec_errors endpointX \<in> set (identifyBottlenecks healthyMetrics [endpointX]) \<and>
   b_severity (spec_errors endpointX) \<noteq> Low"
  using identifyBottlenecks_exact [of healthyMetrics "[endpointX]"]
  by (simp add: identifyBottlenecks_def checkEndpoint_def healthyMetrics_def endpointX_def
      spec_errors_def spec_latency_def spec_slow_def spec_tier_def Let_def)

subsection \<open>Recommendations\<close>

lemma foldl_bottleneckAdvice_empty:
  "foldl bottleneckAdvice acc bs = [] \<longleftrightarrow> acc = [] \<and> (\<forall>b \<in> set bs. b_type b = LowThroughput)"
proof (induction bs arbitrary: acc)
  case Nil
  show ?case by simp
next
  case (Cons b bs)
  show ?case unfolding foldl_Cons Cons.IH
    by (cases "b_type b") (auto simp: bottleneckAdvice_def)
qed

lemma foldl_errorAdvice_empty:
  "foldl errorAdvice acc es = [] \<longleftrightarrow>
     acc = [] \<and> (\<forall>e \<in> set es. take 1 (ea_responseCode e) \<noteq> ''5''
        \<and> ea_responseCode e \<notin> {''404'', ''401'', ''403''})"
proof (induction es arbitrary: acc)
  case Nil
  show ?case by simp
next
  case (Cons e es)
  show ?case unfolding foldl_Cons Cons.IH
    by (auto simp: errorAdvice_def)
qed

text \<open>
  C8. \<open>generateRecommendations\<close> never returns the empty list. When the templates of
  the bottlenecks, those of the first three error clusters and the three global
  heuristics (error rate in (1, 5], p95 above twice the average, throughput below 10)
  produce no advisory, the result is the fallback string alone; so it is for a run with
  no bottleneck, no failure, average 500, p95 600 and throughput 50.
\<close>

theorem generateRecommendations_never_empty:
  "generateRecommendations metrics bottlenecks errors \<noteq> [] \<and>
   ((\<forall>b \<in> set bottlenecks. b_type b = LowThroughput) \<and>
    (\<forall>e \<in> set (take 3 errors). take 1 (ea_responseCode e) \<noteq> ''5''
        \<and> ea_responseCode e \<notin> {''404'', ''401'', ''403''}) \<and>
    \<not> (errorRate metrics > 1 \<and> errorRate metrics \<le> 5) \<and>
    \<not> percentile95 metrics > averageResponseTime metrics * 2 \<and>
    \<not> throughput metrics < 10
    \<longrightarrow> generateRecommendations metrics bottlenecks errors = [fallbackRecommendation]) \<and>
   (errorRate metrics = 0 \<and> averageResponseTime metrics = 500 \<and> percentile95 metrics = 600
      \<and> throughput metrics = 50
    \<longrightarrow> generateRecommendations metrics [] [] = [fallbackRecommendation])"
proof (intro conjI impI)
  show "generateRecommendations metrics bottlenecks errors \<noteq> []"
    by (simp add: generateRecommendations_def Let_def)
next
  assume h: "(\<forall>b \<in> set bottlenecks. b_type b = LowThroughput) \<and>
    (\<forall>e \<in> set (take 3 errors). take 1 (ea_responseCode e) \<noteq> ''5''
        \<and> ea_responseCode e \<notin> {''404'', ''401'', ''403''}) \<and>
    \<not> (errorRate metrics > 1 \<and> errorRate metrics \<le> 5) \<and>
    \<not> percentile95 metrics > averageResponseTime metrics * 2 \<and>
    \<not> throughput metrics < 10"
  then have r1: "foldl bottleneckAdvice [] bottlenecks = []"
    by (simp add: foldl_bottleneckAdvice_empty)
  from h have r2: "foldl errorAdvice [] (take 3 errors) = []"
    unfolding foldl_errorAdvice_empty by blast
  from h show "generateRecommendations metrics bottlenecks errors = [fallbackRecommendation]"
    unfolding generateRecommendations_def Let_def r1 r2 by auto
next
  assume "errorRate metrics = 0 \<and> averageResponseTime metrics = 500
      \<and> percentile95 metrics = 600 \<and> throughput metrics = 50"
  then show "generateRecommendations metrics [] [] = [fallbackRecommendation]"
    by (simp add: generateRecommendations_def Let_def)
qed

theorem generateRecommendations_never_empty_witness:
  "errorRate healthyMetrics = 0 \<and> averageResponseTime healthyMetrics = 500 \<and>
   percentile95 healthyMetrics = 600 \<and> throughput healthyMetrics = 50 \<and>
   generateRecommendations healthyMetrics [] [] = [fallbackRecommendation] \<and>
   throughputBottleneck \<in> set [throughputBottleneck] \<and>
   b_type throughputBottleneck = LowThroughput \<and>
   badRequestCluster \<in> set (take 3 [badRequestCluster]) \<and>
   take 1 (ea_responseCode badRequestCluster) \<noteq> ''5'' \<and>
   ea_responseCode badRequestCluster \<notin> {''404'', ''401'', ''403''} \<and>
   generateRecommendations healthyMetrics [throughputBottleneck] [badRequestCluster]
     = [fallbackRecommendation] \<and>
   generateRecommendations healthyMetrics [throughputBottleneck] [badRequestCluster] \<noteq> []"
  using generateRecommendations_never_empty [of healthyMetrics "[]" "[]"]
    generateRecommendations_never_empty
      [of healthyMetrics "[throughputBottleneck]" "[badRequestCluster]"]
  by (simp add: healthyMetrics_def throughputBottleneck_def badRequestCluster_def)

subsection \<open>Parsing a line of the CSV format\<close>

lemma csv_inside_quotes:
  "CHR 0x22 \<notin> set s \<Longrightarrow> foldl csv_char (vs, cur, True) s = (vs, cur @ s, True)"
  by (induction s arbitrary: cur) auto

lemma csv_escaped:
  "foldl csv_char (vs, cur, True) (escape s) = (vs, cur @ filter (\<lambda>c. c \<noteq> CHR 0x22) s, True)"
  by (induction s arbitrary: cur) (simp_all add: escape_def)

lemma csv_plain:
  "CHR 0x22 \<notin> set s \<Longrightarrow> CHR '','' \<notin> set s \<Longrightarrow>
   foldl csv_char (vs, cur, False) s = (vs, cur @ s, False)"
  by (induction s arbitrary: cur) auto

lemma csv_written:
  "well_formed c \<Longrightarrow> foldl csv_char (vs, cur, False) (written c) = (vs, cur @ kept c, False)"
  by (cases c) (simp_all add: csv_plain csv_escaped)

lemma csv_cells:
  "list_all well_formed (c # cs) \<Longrightarrow>
   foldl csv_char (vs, cur, False) (csv_line (c # cs)) =
     (if cs = [] then (vs, cur @ kept c, False)
      else (vs @ trim (cur @ kept c) # map (\<lambda>c. trim (kept c)) (butlast cs),
            kept (last cs), False))"
proof (induction cs arbitrary: c vs cur)
  case Nil
  then show ?case by (simp add: csv_written)
next
  case (Cons c' cs)
  from Cons.prems have wf: "well_formed c" and rest: "list_all well_formed (c' # cs)"
    by simp_all
  have "foldl csv_char (vs, cur, False) (csv_line (c # c' # cs))
        = foldl csv_char (vs @ [trim (cur @ kept c)], [], False) (csv_line (c' # cs))"
    by (simp add: csv_written [OF wf])
  also have "\<dots> = (if cs = [] then (vs @ [trim (cur @ kept c)], kept c', False)
      else ((vs @ [trim (cur @ kept c)]) @ trim (kept c')
              # map (\<lambda>c. trim (kept c)) (butlast cs),
            kept (last cs), False))"
    using Cons.IH [OF rest, of "vs @ [trim (cur @ kept c)]" "[]"] by simp
  finally show ?case by simp
qed

lemma parseCsvLine_cells:
  assumes "cells \<noteq> []" and "list_all well_formed cells"
  shows "parseCsvLine (csv_line cells) = map (\<lambda>c. trim (kept c)) cells"
proof -
  from assms(1) obtain c cs where cells: "cells = c # cs" by (cases cells) auto
  show ?thesis
  proof (cases "cs = []")
    case True
    with assms(2) show ?thesis
      unfolding cells parseCsvLine_def by (simp add: csv_written)
  next
    case False
    then have "map (\<lambda>c. trim (kept c)) (butlast cs) @ [trim (kept (last cs))]
               = map (\<lambda>c. trim (kept c)) cs"
      by (metis (no_types, lifting) append_butlast_last_id list.simps(8,9) map_append)
    with False assms(2) show ?thesis
      unfolding cells parseCsvLine_def by (simp add: csv_cells)
  qed
qed

text \<open>
  C4. \<open>parseCsvLine\<close> never splits on a comma between double quotes: inside quotes
  every character other than a quote is appended to the current field. Hence a line of
  cells, of which the quoted ones may hold commas, parses into exactly one field for
  each cell, holding the trimmed characters of that cell.
\<close>

theorem parseCsvLine_quoted:
  "(CHR 0x22 \<notin> set s \<longrightarrow>
      foldl csv_char (values, current, True) s = (values, current @ s, True)) \<and>
   (cells \<noteq> [] \<and> list_all well_formed cells \<longrightarrow>
      parseCsvLine (csv_line cells) = map (\<lambda>c. trim (kept c)) cells \<and>
      length (parseCsvLine (csv_line cells)) = length cells)"
  by (simp add: csv_inside_quotes parseCsvLine_cells)

theorem parseCsvLine_quoted_witness:
  "CHR 0x22 \<notin> set ''GET /a,b'' \<and>
   foldl csv_char ([''1700000000000''], [], True) ''GET /a,b''
     = ([''1700000000000''], ''GET /a,b'', True) \<and>
   [Plain ''1700000000000'', Quoted ''GET /a,b'', Plain '' 200 ''] \<noteq> [] \<and>
   list_all well_formed [Plain ''1700000000000'', Quoted ''GET /a,b'', Plain '' 200 ''] \<and>
   csv_line [Plain ''1700000000000'', Quoted ''GET /a,b'', Plain '' 200 '']
     = ''1700000000000,'' @ [CHR 0x22] @ ''GET /a,b'' @ [CHR 0x22] @ '', 200 '' \<and>
   parseCsvLine (''1700000000000,'' @ [CHR 0x22] @ ''GET /a,b'' @ [CHR 0x22] @ '', 200 '')
     = [''1700000000000'', ''GET /a,b'', ''200''] \<and>
   list_all well_formed [Quoted ''say \"hi\", ok'', Plain ''x''] \<and>
   csv_line [Quoted ''say \"hi\", ok'', Plain ''x''] = ''\"say \"\"hi\"\", ok\",x'' \<and>
   parseCsvLine ''\"say \"\"hi\"\", ok\",x'' = [''say hi, ok'', ''x'']"
  using parseCsvLine_quoted [of "''GET /a,b''" "[''1700000000000'']" "[]"
      "[Plain ''1700000000000'', Quoted ''GET /a,b'', Plain '' 200 '']"]
    parseCsvLine_quoted [of "''GET /a,b''" "[''1700000000000'']" "[]"
      "[Quoted ''say \"hi\", ok'', Plain ''x'']"]
  by (simp add: trim_def is_space_def escape_def)

subsection \<open>Time series\<close>

lemma timeLoop_exit: "maxTime < time \<Longrightarrow> timeLoop results i maxTime time acc = Some acc"
  by (subst timeLoop.simps) simp

lemma timeLoop_step:
  "time \<le> maxTime \<Longrightarrow>
   timeLoop results i maxTime time acc
     = timeLoop results i maxTime (fl64 (time + i)) (acc @ intervalPoint results i time)"
  by (subst timeLoop.simps) simp

text \<open>The loop when every sum of the cursor and the interval is a double.\<close>

lemma timeLoop_unroll:
  assumes "maxTime < time + real n * i" and "\<forall>k<n. time + real k * i \<le> maxTime"
    and "\<forall>k<n. fl64 (time + real k * i + i) = time + real k * i + i"
  shows "timeLoop results i maxTime time acc
         = Some (acc @ concat (map (\<lambda>k. intervalPoint results i (time + real k * i)) [0..<n]))"
  using assms
proof (induction n arbitrary: time acc)
  case 0
  then show ?case by (simp add: timeLoop_exit)
next
  case (Suc n)
  from Suc.prems(2) have le: "time \<le> maxTime" by force
  from Suc.prems(3) have "fl64 (time + real 0 * i + i) = time + real 0 * i + i" by blast
  then have ex: "fl64 (time + i) = time + i" by simp
  have a: "maxTime < (time + i) + real n * i"
    using Suc.prems(1) by (simp add: algebra_simps)
  have b: "\<forall>k<n. (time + i) + real k * i \<le> maxTime"
  proof (intro allI impI)
    fix k assume "k < n"
    then have "time + real (Suc k) * i \<le> maxTime" using Suc.prems(2) by blast
    then show "(time + i) + real k * i \<le> maxTime" by (simp add: algebra_simps)
  qed
  have c: "\<forall>k<n. fl64 ((time + i) + real k * i + i) = (time + i) + real k * i + i"
  proof (intro allI impI)
    fix k assume "k < n"
    then have "fl64 (time + real (Suc k) * i + i) = time + real (Suc k) * i + i"
      using Suc.prems(3) by blast
    moreover have "time + real (Suc k) * i + i = (time + i) + real k * i + i"
      by (simp add: algebra_simps)
    ultimately show "fl64 ((time + i) + real k * i + i) = (time + i) + real k * i + i"
      by (simp only:)
  qed
  have shift: "map (\<lambda>k. intervalPoint results i (time + real k * i)) [0..<Suc n]
        = intervalPoint results i time
          # map (\<lambda>k. intervalPoint results i ((time + i) + real k * i)) [0..<n]"
  proof -
    have "[0..<Suc n] = 0 # map Suc [0..<n]"
      by (simp add: upt_conv_Cons map_Suc_upt del: upt_Suc)
    then show ?thesis by (simp add: o_def algebra_simps del: upt_Suc)
  qed
  show ?case
    unfolding timeLoop_step [OF le] ex Suc.IH [OF a b c] shift by simp
qed

text \<open>A cursor that does not move up never passes \<open>maxTime\<close>.\<close>

lemma timeLoop_runs_forever:
  assumes "timeLoop results i maxTime time acc = Some y"
  shows "i \<le> 0 \<and> fl64 maxTime = maxTime \<longrightarrow> maxTime < time"
proof (rule timeLoop.raw_induct
    [where P = "\<lambda>_ i maxTime time _ _. i \<le> 0 \<and> fl64 maxTime = maxTime \<longrightarrow> maxTime < time",
      OF _ assms])
  fix f :: "JTLResult list \<Rightarrow> real \<Rightarrow> real \<Rightarrow> real \<Rightarrow> TimeSeriesData list
            \<Rightarrow> TimeSeriesData list option"
    and results i maxTime time acc y
  assume IH: "\<And>results i maxTime time acc y.
      f results i maxTime time acc = Some y \<Longrightarrow>
      i \<le> 0 \<and> fl64 maxTime = maxTime \<longrightarrow> maxTime < time"
  assume eq: "(if time \<le> maxTime
      then f results i maxTime (fl64 (time + i)) (acc @ intervalPoint results i time)
      else Some acc) = Some y"
  show "i \<le> 0 \<and> fl64 maxTime = maxTime \<longrightarrow> maxTime < time"
  proof (intro impI, rule ccontr)
    assume h: "i \<le> 0 \<and> fl64 maxTime = maxTime" and "\<not> maxTime < time"
    then have le: "time \<le> maxTime" by simp
    with eq have "f results i maxTime (fl64 (time + i)) (acc @ intervalPoint results i time)
                  = Some y"
      by simp
    from IH [OF this] h have "maxTime < fl64 (time + i)" by simp
    moreover have "fl64 (time + i) \<le> fl64 maxTime"
      using le h by (intro fl64_mono) simp
    ultimately show False using h by simp
  qed
qed

lemma timeLoop_stuck:
  assumes "timeLoop results i maxTime time acc = Some y"
  shows "fl64 (time + i) = time \<longrightarrow> maxTime < time"
proof (rule timeLoop.raw_induct
    [where P = "\<lambda>_ i maxTime time _ _. fl64 (time + i) = time \<longrightarrow> maxTime < time",
      OF _ assms])
  fix f :: "JTLResult list \<Rightarrow> real \<Rightarrow> real \<Rightarrow> real \<Rightarrow> TimeSeriesData list
            \<Rightarrow> TimeSeriesData list option"
    and results i maxTime time acc y
  assume IH: "\<And>results i maxTime time acc y.
      f results i maxTime time acc = Some y \<Longrightarrow> fl64 (time + i) = time \<longrightarrow> maxTime < time"
  assume eq: "(if time \<le> maxTime
      then f results i maxTime (fl64 (time + i)) (acc @ intervalPoint results i time)
      else Some acc) = Some y"
  show "fl64 (time + i) = time \<longrightarrow> maxTime < time"
  proof (intro impI, rule ccontr)
    assume h: "fl64 (time + i) = time" and "\<not> maxTime < time"
    then have le: "time \<le> maxTime" by simp
    with eq have "f results i maxTime (fl64 (time + i)) (acc @ intervalPoint results i time)
                  = Some y"
      by simp
    then have "f results i maxTime time (acc @ intervalPoint results i time) = Some y"
      by (simp only: h)
    from IH [OF this] h have "maxTime < time" by simp
    with le show False by simp
  qed
qed

lemma Min_le_Max_timestamp:
  assumes "results \<noteq> []"
  shows "Min (timestamp ` set results) \<le> Max (timestamp ` set results)"
proof -
  from assms have "timestamp (hd results) \<in> timestamp ` set results" by simp
  then have "Min (timestamp ` set results) \<le> timestamp (hd results)"
    and "timestamp (hd results) \<le> Max (timestamp ` set results)"
    by (simp_all del: hd_in_set)
  then show ?thesis by simp
qed

lemma window_count:
  fixes mn mx i :: real
  assumes "mn \<le> mx" and "0 < i"
  defines "n \<equiv> nat \<lfloor>(mx - mn) / i\<rfloor> + 1"
  shows "mx < mn + real n * i" and "\<forall>k<n. mn + real k * i \<le> mx"
proof -
  have nn: "0 \<le> (mx - mn) / i" using assms by simp
  then have fl: "0 \<le> \<lfloor>(mx - mn) / i\<rfloor>" by simp
  have "(mx - mn) / i < real_of_int \<lfloor>(mx - mn) / i\<rfloor> + 1" by linarith
  also have "\<dots> = real n" using fl by (simp add: n_def)
  finally have "(mx - mn) < real n * i" using assms(2) by (simp add: pos_divide_less_eq)
  then show "mx < mn + real n * i" by simp
  show "\<forall>k<n. mn + real k * i \<le> mx"
  proof (intro allI impI)
    fix k assume "k < n"
    then have "k \<le> nat \<lfloor>(mx - mn) / i\<rfloor>" by (simp add: n_def)
    then have "int k \<le> \<lfloor>(mx - mn) / i\<rfloor>" using fl by linarith
    then have "real k \<le> (mx - mn) / i" by (simp add: le_floor_iff)
    then have "real k * i \<le> mx - mn" using assms(2) by (simp add: pos_le_divide_eq)
    then show "mn + real k * i \<le> mx" by simp
  qed
qed

lemma window_unique:
  fixes mn mx i t :: real
  assumes "mn \<le> t" and "t \<le> mx" and "0 < i"
  shows "\<exists>!k. k < nat \<lfloor>(mx - mn) / i\<rfloor> + 1
           \<and> mn + real k * i \<le> t \<and> t < mn + real k * i + i"
proof (rule ex1I [of _ "nat \<lfloor>(t - mn) / i\<rfloor>"])
  have fl: "0 \<le> \<lfloor>(t - mn) / i\<rfloor>" using assms by simp
  have mono: "\<lfloor>(t - mn) / i\<rfloor> \<le> \<lfloor>(mx - mn) / i\<rfloor>"
    using assms by (intro floor_mono divide_right_mono) simp_all
  have lo: "real_of_int \<lfloor>(t - mn) / i\<rfloor> \<le> (t - mn) / i" by simp
  have hi: "(t - mn) / i < real_of_int \<lfloor>(t - mn) / i\<rfloor> + 1" by linarith
  have k: "real (nat \<lfloor>(t - mn) / i\<rfloor>) = real_of_int \<lfloor>(t - mn) / i\<rfloor>"
    using fl by simp
  have "real_of_int \<lfloor>(t - mn) / i\<rfloor> * i \<le> ((t - mn) / i) * i"
    using lo assms(3) by (intro mult_right_mono) simp_all
  then have "real_of_int \<lfloor>(t - mn) / i\<rfloor> * i \<le> t - mn"
    using assms(3) by simp
  moreover have "((t - mn) / i) * i < (real_of_int \<lfloor>(t - mn) / i\<rfloor> + 1) * i"
    using hi assms(3) by (intro mult_strict_right_mono) simp_all
  then have "t - mn < (real_of_int \<lfloor>(t - mn) / i\<rfloor> + 1) * i"
    using assms(3) by simp
  ultimately show "nat \<lfloor>(t - mn) / i\<rfloor> < nat \<lfloor>(mx - mn) / i\<rfloor> + 1
      \<and> mn + real (nat \<lfloor>(t - mn) / i\<rfloor>) * i \<le> t
      \<and> t < mn + real (nat \<lfloor>(t - mn) / i\<rfloor>) * i + i"
    using mono fl unfolding k by (simp add: algebra_simps)
next
  fix k :: nat
  assume h: "k < nat \<lfloor>(mx - mn) / i\<rfloor> + 1 \<and> mn + real k * i \<le> t \<and> t < mn + real k * i + i"
  then have "real k * i \<le> t - mn" and "t - mn < (real k + 1) * i"
    by (simp_all add: algebra_simps)
  then have "real k \<le> (t - mn) / i" and "(t - mn) / i < real k + 1"
    using assms(3) by (simp_all add: pos_le_divide_eq pos_divide_less_eq)
  then have "\<lfloor>(t - mn) / i\<rfloor> = int k" by (simp add: floor_eq_iff)
  then show "k = nat \<lfloor>(t - mn) / i\<rfloor>" by simp
qed

text \<open>
  With integer timestamps and an integer interval, all of a magnitude up to \<open>2^53\<close>,
  every sum of the cursor and the interval is a double.
\<close>

lemma grid_exact:
  fixes mn mx i :: real
  assumes "mn \<in> \<int>" and "i \<in> \<int>" and "0 < i" and "- (2 ^ 53) \<le> mn" and "mx + i \<le> 2 ^ 53"
    and "mn + real k * i \<le> mx"
  shows "fl64 (mn + real k * i + i) = mn + real k * i + i"
proof (rule fl64_Ints)
  show "mn + real k * i + i \<in> \<int>" using assms(1,2) by (intro Ints_add Ints_mult) simp_all
  have "0 \<le> real k * i" using assms(3) by simp
  then have "- (2 ^ 53) \<le> mn + real k * i + i" using assms(3,4) by linarith
  moreover have "mn + real k * i + i \<le> 2 ^ 53" using assms(5,6) by linarith
  ultimately show "\<bar>mn + real k * i + i\<bar> \<le> 2 ^ 53" by (simp add: abs_le_iff)
qed

lemma Min_timestamp_Ints:
  assumes "results \<noteq> []" and "\<forall>r \<in> set results. timestamp r \<in> \<int>"
  shows "Min (timestamp ` set results) \<in> \<int>"
proof -
  have "Min (timestamp ` set results) \<in> timestamp ` set results"
    using assms(1) by (intro Min_in) simp_all
  with assms(2) show ?thesis by auto
qed

lemma generateTimeSeriesData_closed:
  assumes "results \<noteq> []" and "0 < i" and "i \<in> \<int>" and "\<forall>r \<in> set results. timestamp r \<in> \<int>"
    and "- (2 ^ 53) \<le> Min (timestamp ` set results)"
    and "Max (timestamp ` set results) + i \<le> 2 ^ 53"
  shows "generateTimeSeriesData results i
         = Some (concat (map (\<lambda>k. intervalPoint results i
                                   (Min (timestamp ` set results) + real k * i))
                   [0..<nat \<lfloor>(Max (timestamp ` set results) - Min (timestamp ` set results)) / i\<rfloor> + 1]))"
    and "\<forall>k < nat \<lfloor>(Max (timestamp ` set results) - Min (timestamp ` set results)) / i\<rfloor> + 1.
           fl64 (Min (timestamp ` set results) + real k * i + i)
           = Min (timestamp ` set results) + real k * i + i"
proof -
  have mx: "Math_max (map timestamp results) = Max (timestamp ` set results)"
    using assms(1) Math_max_eq_Max [of "map timestamp results"] by simp
  have mn: "Math_min (map timestamp results) = Min (timestamp ` set results)"
    using assms(1) Math_min_eq_Min [of "map timestamp results"] by simp
  have le: "Min (timestamp ` set results) \<le> Max (timestamp ` set results)"
    using assms(1) by (rule Min_le_Max_timestamp)
  note w = window_count [OF le assms(2)]
  have mnI: "Min (timestamp ` set results) \<in> \<int>"
    using assms(1,4) by (rule Min_timestamp_Ints)
  show ex: "\<forall>k < nat \<lfloor>(Max (timestamp ` set results) - Min (timestamp ` set results)) / i\<rfloor> + 1.
           fl64 (Min (timestamp ` set results) + real k * i + i)
           = Min (timestamp ` set results) + real k * i + i"
  proof (intro allI impI)
    fix k
    assume "k < nat \<lfloor>(Max (timestamp ` set results) - Min (timestamp ` set results)) / i\<rfloor> + 1"
    with w(2) have "Min (timestamp ` set results) + real k * i \<le> Max (timestamp ` set results)"
      by blast
    with mnI assms(3,2,5,6)
    show "fl64 (Min (timestamp ` set results) + real k * i + i)
           = Min (timestamp ` set results) + real k * i + i"
      by (rule grid_exact)
  qed
  show "generateTimeSeriesData results i
         = Some (concat (map (\<lambda>k. intervalPoint results i
                                   (Min (timestamp ` set results) + real k * i))
                   [0..<nat \<lfloor>(Max (timestamp ` set results) - Min (timestamp ` set results)) / i\<rfloor> + 1]))"
    using assms(1) unfolding generateTimeSeriesData_def Let_def mx mn
    by (simp add: timeLoop_unroll [OF w ex])
qed

lemma generateTimeSeriesData_diverges:
  assumes "results \<noteq> []" and "i \<le> 0" and "\<forall>r \<in> set results. fl64 (timestamp r) = timestamp r"
  shows "generateTimeSeriesData results i = None"
proof (rule ccontr)
  assume "generateTimeSeriesData results i \<noteq> None"
  then obtain y where y: "generateTimeSeriesData results i = Some y" by auto
  have mx: "Math_max (map timestamp results) = Max (timestamp ` set results)"
    using assms(1) Math_max_eq_Max [of "map timestamp results"] by simp
  have mn: "Math_min (map timestamp results) = Min (timestamp ` set results)"
    using assms(1) Math_min_eq_Min [of "map timestamp results"] by simp
  have "Max (timestamp ` set results) \<in> timestamp ` set results"
    using assms(1) by (intro Max_in) simp_all
  with assms(3) have dbl: "fl64 (Max (timestamp ` set results)) = Max (timestamp ` set results)"
    by auto
  from y assms(1) have "timeLoop results i (Max (timestamp ` set results))
      (Min (timestamp ` set results)) [] = Some y"
    by (simp add: generateTimeSeriesData_def Let_def mx mn)
  from timeLoop_runs_forever [OF this] assms(2) dbl
  have "Max (timestamp ` set results) < Min (timestamp ` set results)" by simp
  moreover have "Min (timestamp ` set results) \<le> Max (timestamp ` set results)"
    using assms(1) by (rule Min_le_Max_timestamp)
  ultimately show False by simp
qed

lemma intervalPoint_empty_iff:
  "intervalPoint results i time = []
   \<longleftrightarrow> \<not> (\<exists>r \<in> set results. time \<le> timestamp r \<and> timestamp r < fl64 (time + i))"
  by (auto simp: intervalPoint_def Let_def filter_empty_conv)

lemma intervalPoint_point:
  "p \<in> set (intervalPoint results i time) \<Longrightarrow>
   ts_timestamp p = time \<and>
   ts_throughput p
     = real (length (filter (\<lambda>r. time \<le> timestamp r \<and> timestamp r < fl64 (time + i)) results))
       / (i / 1000)"
  by (auto simp: intervalPoint_def Let_def split: if_splits)

lemma fl64_1500: "fl64 1500 = 1500" and fl64_2500: "fl64 2500 = 2500"
  using fl64_of_nat [of 1500] fl64_of_nat [of 2500] by simp_all

lemma twoSamples_series:
  "generateTimeSeriesData twoSamples 1000 =
     Some [\<lparr> ts_timestamp = 500, ts_responseTime = 120, ts_throughput = 1,
              ts_activeThreads = 1, ts_errorCount = 0 \<rparr>,
           \<lparr> ts_timestamp = 1500, ts_responseTime = 80, ts_throughput = 1,
              ts_activeThreads = 1, ts_errorCount = 1 \<rparr>]"
  by (simp add: generateTimeSeriesData_def twoSamples_def sample_def timeLoop.simps
      intervalPoint_def average_def Let_def fl64_1500 fl64_2500)

text \<open>
  C7, as the source has it. The empty sample sequence gives the empty series. Otherwise,
  for integer timestamps and a positive integer interval, of magnitudes up to \<open>2^53\<close>
  (so that the sums of the cursor are doubles), the windows start at \<open>min(timestamp)\<close>
  and follow each other at the distance \<open>intervalMs\<close> as long as the start is at most
  \<open>max(timestamp)\<close>; each sample lies in exactly one of them, the one with
  \<open>start \<le> timestamp < start + intervalMs\<close>; a window without samples contributes no
  point, any other window one point carrying its start. For \<open>intervalMs = 1000\<close> and two
  samples at 500 and 1700 the series has two points, for the windows [500, 1500) and
  [1500, 2500), of one sample each.
\<close>

theorem generateTimeSeriesData_windows:
  "generateTimeSeriesData [] intervalMs = Some [] \<and>
   (results \<noteq> [] \<and> 0 < intervalMs \<and> intervalMs \<in> \<int> \<and>
    (\<forall>r \<in> set results. timestamp r \<in> \<int>) \<and>
    - (2 ^ 53) \<le> Min (timestamp ` set results) \<and>
    Max (timestamp ` set results) + intervalMs \<le> 2 ^ 53 \<longrightarrow>
      (let minTime = Min (timestamp ` set results);
           maxTime = Max (timestamp ` set results);
           n = nat \<lfloor>(maxTime - minTime) / intervalMs\<rfloor> + 1
       in generateTimeSeriesData results intervalMs
            = Some (concat (map (\<lambda>k. intervalPoint results intervalMs
                                      (minTime + real k * intervalMs)) [0..<n])) \<and>
          (\<forall>k<n. minTime + real k * intervalMs \<le> maxTime) \<and>
          maxTime < minTime + real n * intervalMs \<and>
          (\<forall>k<n. fl64 (minTime + real k * intervalMs + intervalMs)
                   = minTime + real k * intervalMs + intervalMs) \<and>
          (\<forall>r \<in> set results. \<exists>!k. k < n \<and> minTime + real k * intervalMs \<le> timestamp r
              \<and> timestamp r < minTime + real k * intervalMs + intervalMs))) \<and>
   (intervalPoint results intervalMs time = []
      \<longleftrightarrow> \<not> (\<exists>r \<in> set results. time \<le> timestamp r
                \<and> timestamp r < fl64 (time + intervalMs))) \<and>
   length (intervalPoint results intervalMs time) \<le> 1 \<and>
   (\<forall>p \<in> set (intervalPoint results intervalMs time).
      ts_timestamp p = time \<and>
      ts_throughput p
        = real (length (filter (\<lambda>r. time \<le> timestamp r
                                   \<and> timestamp r < fl64 (time + intervalMs)) results))
          / (intervalMs / 1000)) \<and>
   generateTimeSeriesData twoSamples 1000 =
     Some [\<lparr> ts_timestamp = 500, ts_responseTime = 120, ts_throughput = 1,
              ts_activeThreads = 1, ts_errorCount = 0 \<rparr>,
           \<lparr> ts_timestamp = 1500, ts_responseTime = 80, ts_throughput = 1,
              ts_activeThreads = 1, ts_errorCount = 1 \<rparr>]"
proof (intro conjI impI)
  show "generateTimeSeriesData [] intervalMs = Some []"
    by (simp add: generateTimeSeriesData_def)
next
  assume h: "results \<noteq> [] \<and> 0 < intervalMs \<and> intervalMs \<in> \<int> \<and>
    (\<forall>r \<in> set results. timestamp r \<in> \<int>) \<and>
    - (2 ^ 53) \<le> Min (timestamp ` set results) \<and>
    Max (timestamp ` set results) + intervalMs \<le> 2 ^ 53"
  then have ne: "results \<noteq> []" and pos: "0 < intervalMs" and iI: "intervalMs \<in> \<int>"
    and tI: "\<forall>r \<in> set results. timestamp r \<in> \<int>"
    and lo: "- (2 ^ 53) \<le> Min (timestamp ` set results)"
    and hi: "Max (timestamp ` set results) + intervalMs \<le> 2 ^ 53"
    by simp_all
  have le: "Min (timestamp ` set results) \<le> Max (timestamp ` set results)"
    using ne by (rule Min_le_Max_timestamp)
  have part: "\<exists>!k. k < nat \<lfloor>(Max (timestamp ` set results) - Min (timestamp ` set results))
                               / intervalMs\<rfloor> + 1
         \<and> Min (timestamp ` set results) + real k * intervalMs \<le> timestamp r
         \<and> timestamp r < Min (timestamp ` set results) + real k * intervalMs + intervalMs"
    if "r \<in> set results" for r
    using that pos by (intro window_unique) simp_all
  show "let minTime = Min (timestamp ` set results);
           maxTime = Max (timestamp ` set results);
           n = nat \<lfloor>(maxTime - minTime) / intervalMs\<rfloor> + 1
       in generateTimeSeriesData results intervalMs
            = Some (concat (map (\<lambda>k. intervalPoint results intervalMs
                                      (minTime + real k * intervalMs)) [0..<n])) \<and>
          (\<forall>k<n. minTime + real k * intervalMs \<le> maxTime) \<and>
          maxTime < minTime + real n * intervalMs \<and>
          (\<forall>k<n. fl64 (minTime + real k * intervalMs + intervalMs)
                   = minTime + real k * intervalMs + intervalMs) \<and>
          (\<forall>r \<in> set results. \<exists>!k. k < n \<and> minTime + real k * intervalMs \<le> timestamp r
              \<and> timestamp r < minTime + real k * intervalMs + intervalMs)"
    unfolding Let_def
    using generateTimeSeriesData_closed [OF ne pos iI tI lo hi] window_count [OF le pos] part
    by (intro conjI ballI)
next
  show "intervalPoint results intervalMs time = []
      \<longleftrightarrow> \<not> (\<exists>r \<in> set results. time \<le> timestamp r
                \<and> timestamp r < fl64 (time + intervalMs))"
    by (rule intervalPoint_empty_iff)
next
  show "length (intervalPoint results intervalMs time) \<le> 1"
    by (simp add: intervalPoint_def Let_def)
next
  show "\<forall>p \<in> set (intervalPoint results intervalMs time).
      ts_timestamp p = time \<and>
      ts_throughput p
        = real (length (filter (\<lambda>r. time \<le> timestamp r
                                   \<and> timestamp r < fl64 (time + intervalMs)) results))
          / (intervalMs / 1000)"
    using intervalPoint_point by (intro ballI)
next
  show "generateTimeSeriesData twoSamples 1000 =
     Some [\<lparr> ts_timestamp = 500, ts_responseTime = 120, ts_throughput = 1,
              ts_activeThreads = 1, ts_errorCount = 0 \<rparr>,
           \<lparr> ts_timestamp = 1500, ts_responseTime = 80, ts_throughput = 1,
              ts_activeThreads = 1, ts_errorCount = 1 \<rparr>]"
    by (rule twoSamples_series)
qed

theorem generateTimeSeriesData_windows_witness:
  "twoSamples \<noteq> [] \<and> (0 :: real) < 1000 \<and> (1000 :: real) \<in> \<int> \<and>
   timestamp (sample 500 120 ''A'' True) \<in> \<int> \<and>
   timestamp (sample 1700 80 ''B'' False) \<in> \<int> \<and>
   Min (timestamp ` set twoSamples) = 500 \<and> Max (timestamp ` set twoSamples) = 1700 \<and>
   - (2 ^ 53) \<le> (500 :: real) \<and> (1700 :: real) + 1000 \<le> 2 ^ 53 \<and>
   nat \<lfloor>(1700 - 500) / (1000 :: real)\<rfloor> + 1 = 2 \<and>
   generateTimeSeriesData twoSamples 1000
     = Some (intervalPoint twoSamples 1000 500 @ intervalPoint twoSamples 1000 1500) \<and>
   500 + real 0 * 1000 \<le> Max (timestamp ` set twoSamples) \<and>
   500 + real 1 * 1000 \<le> Max (timestamp ` set twoSamples) \<and>
   Max (timestamp ` set twoSamples) < 500 + real 2 * 1000 \<and>
   sample 1700 80 ''B'' False \<in> set twoSamples \<and>
   500 + real 1 * 1000 \<le> timestamp (sample 1700 80 ''B'' False) \<and>
   timestamp (sample 1700 80 ''B'' False) < 500 + real 1 * 1000 + 1000 \<and>
   intervalPoint twoSamples 1000 500 \<noteq> [] \<and>
   length (intervalPoint twoSamples 1000 500) \<le> 1"
proof -
  have ne: "twoSamples \<noteq> []" and pos: "(0 :: real) < 1000" and iI: "(1000 :: real) \<in> \<int>"
    by (simp_all add: twoSamples_def)
  have tI: "\<forall>r \<in> set twoSamples. timestamp r \<in> \<int>"
    by (simp add: twoSamples_def sample_def)
  have mm: "Min (timestamp ` set twoSamples) = 500" "Max (timestamp ` set twoSamples) = 1700"
    by (simp_all add: twoSamples_def sample_def)
  have bd: "- (2 ^ 53) \<le> (500 :: real)" "(1700 :: real) + 1000 \<le> 2 ^ 53" by simp_all
  have n: "nat \<lfloor>(1700 - 500) / (1000 :: real)\<rfloor> + 1 = 2" by simp
  have up: "[0..<2] = [0, Suc 0]" by (simp add: upt_conv_Cons)
  have mem: "sample 1700 80 ''B'' False \<in> set twoSamples" by (simp add: twoSamples_def)
  have ip: "intervalPoint twoSamples 1000 500 \<noteq> []"
    by (simp add: intervalPoint_def twoSamples_def sample_def Let_def fl64_1500)
  have ts: "timestamp (sample 1700 80 ''B'' False) = 1700"
    "timestamp (sample 500 120 ''A'' True) = 500" by (simp_all add: sample_def)
  note w = generateTimeSeriesData_windows [of 1000 twoSamples 500, unfolded Let_def mm n up]
  from w ne pos iI tI bd have "generateTimeSeriesData twoSamples 1000
      = Some (concat (map (\<lambda>k. intervalPoint twoSamples 1000 (500 + real k * 1000)) [0, Suc 0]))"
    by (elim conjE) (simp only: simp_thms)
  then have a: "generateTimeSeriesData twoSamples 1000
      = Some (intervalPoint twoSamples 1000 500 @ intervalPoint twoSamples 1000 1500)"
    by simp
  from w have len: "length (intervalPoint twoSamples 1000 500) \<le> 1" by (elim conjE)
  from ne pos mm n a mem ip len ts show ?thesis by simp
qed

theorem generateTimeSeriesData_scenario_counterexample:
  "map_option (map ts_timestamp) (generateTimeSeriesData twoSamples 1000) = Some [500, 1500] \<and>
   map_option (map ts_timestamp) (generateTimeSeriesData twoSamples 1000) \<noteq> Some [0, 1000]"
  by (simp add: twoSamples_series)

lemma absorbed_series: "generateTimeSeriesData [sample (10 ^ 21) 100 ''X'' True] 10000 = None"
proof (rule ccontr)
  assume "generateTimeSeriesData [sample (10 ^ 21) 100 ''X'' True] 10000 \<noteq> None"
  then obtain y where "generateTimeSeriesData [sample (10 ^ 21) 100 ''X'' True] 10000 = Some y"
    by auto
  then have "timeLoop [sample (10 ^ 21) 100 ''X'' True] 10000 (10 ^ 21) (10 ^ 21) [] = Some y"
    by (simp add: generateTimeSeriesData_def sample_def)
  from timeLoop_stuck [OF this] fl64_absorb show False by simp
qed

text \<open>
  C10, as the source has it. With integer timestamps and a positive integer
  \<open>intervalMs\<close>, of magnitudes up to \<open>2^53\<close> (as epoch milliseconds and the default 10000
  are), the loop of \<open>generateTimeSeriesData\<close> ends: the cursor starts at the smallest
  timestamp, moves on by \<open>intervalMs\<close> in each iteration, and the loop is left once the
  cursor is above the largest timestamp. A non-positive interval is not rejected, and on
  a non-empty sequence the loop then runs forever. A positive interval alone does not
  make the loop end: the sum of the cursor and the interval is a double and can be the
  cursor again, as for the timestamp \<open>10^21\<close> and the default interval.
\<close>

theorem generateTimeSeriesData_terminates:
  "generateTimeSeriesData [] intervalMs = Some [] \<and>
   (results \<noteq> [] \<and> 0 < intervalMs \<and> intervalMs \<in> \<int> \<and>
    (\<forall>r \<in> set results. timestamp r \<in> \<int>) \<and>
    - (2 ^ 53) \<le> Min (timestamp ` set results) \<and>
    Max (timestamp ` set results) + intervalMs \<le> 2 ^ 53 \<longrightarrow>
      (\<exists>points. generateTimeSeriesData results intervalMs = Some points)) \<and>
   (results \<noteq> [] \<and> (\<forall>r \<in> set results. timestamp r \<in> \<int>) \<and>
    - (2 ^ 53) \<le> Min (timestamp ` set results) \<and>
    Max (timestamp ` set results) + 10000 \<le> 2 ^ 53 \<longrightarrow>
      (\<exists>points. generateTimeSeriesData_default results = Some points)) \<and>
   (results \<noteq> [] \<and> intervalMs \<le> 0 \<and> (\<forall>r \<in> set results. fl64 (timestamp r) = timestamp r) \<longrightarrow>
      generateTimeSeriesData results intervalMs = None) \<and>
   (time \<le> maxTime \<longrightarrow>
      timeLoop results intervalMs maxTime time acc
        = timeLoop results intervalMs maxTime (fl64 (time + intervalMs))
            (acc @ intervalPoint results intervalMs time)) \<and>
   (maxTime < time \<longrightarrow> timeLoop results intervalMs maxTime time acc = Some acc)"
proof (intro conjI impI)
  show "generateTimeSeriesData [] intervalMs = Some []"
    by (simp add: generateTimeSeriesData_def)
next
  assume "results \<noteq> [] \<and> 0 < intervalMs \<and> intervalMs \<in> \<int> \<and>
    (\<forall>r \<in> set results. timestamp r \<in> \<int>) \<and>
    - (2 ^ 53) \<le> Min (timestamp ` set results) \<and>
    Max (timestamp ` set results) + intervalMs \<le> 2 ^ 53"
  then have "results \<noteq> []" "0 < intervalMs" "intervalMs \<in> \<int>"
    "\<forall>r \<in> set results. timestamp r \<in> \<int>" "- (2 ^ 53) \<le> Min (timestamp ` set results)"
    "Max (timestamp ` set results) + intervalMs \<le> 2 ^ 53"
    by simp_all
  from generateTimeSeriesData_closed(1) [OF this]
  show "\<exists>points. generateTimeSeriesData results intervalMs = Some points" by (rule exI)
next
  assume "results \<noteq> [] \<and> (\<forall>r \<in> set results. timestamp r \<in> \<int>) \<and>
    - (2 ^ 53) \<le> Min (timestamp ` set results) \<and>
    Max (timestamp ` set results) + 10000 \<le> 2 ^ 53"
  then have "results \<noteq> []" "(0 :: real) < 10000" "(10000 :: real) \<in> \<int>"
    "\<forall>r \<in> set results. timestamp r \<in> \<int>" "- (2 ^ 53) \<le> Min (timestamp ` set results)"
    "Max (timestamp ` set results) + 10000 \<le> 2 ^ 53"
    by simp_all
  from generateTimeSeriesData_closed(1) [OF this]
  show "\<exists>points. generateTimeSeriesData_default results = Some points"
    unfolding generateTimeSeriesData_default_def by (rule exI)
next
  assume "results \<noteq> [] \<and> intervalMs \<le> 0
    \<and> (\<forall>r \<in> set results. fl64 (timestamp r) = timestamp r)"
  then have "results \<noteq> []" "intervalMs \<le> 0"
    "\<forall>r \<in> set results. fl64 (timestamp r) = timestamp r"
    by simp_all
  then show "generateTimeSeriesData results intervalMs = None"
    by (rule generateTimeSeriesData_diverges)
next
  assume "time \<le> maxTime"
  then show "timeLoop results intervalMs maxTime time acc
        = timeLoop results intervalMs maxTime (fl64 (time + intervalMs))
            (acc @ intervalPoint results intervalMs time)"
    by (rule timeLoop_step)
next
  assume "maxTime < time"
  then show "timeLoop results intervalMs maxTime time acc = Some acc"
    by (rule timeLoop_exit)
qed

theorem generateTimeSeriesData_terminates_witness:
  "twoSamples \<noteq> [] \<and> (0 :: real) < 1000 \<and> (1000 :: real) \<in> \<int> \<and>
   timestamp (sample 500 120 ''A'' True) \<in> \<int> \<and>
   timestamp (sample 1700 80 ''B'' False) \<in> \<int> \<and>
   - (2 ^ 53) \<le> Min (timestamp ` set twoSamples) \<and>
   Max (timestamp ` set twoSamples) + 1000 \<le> 2 ^ 53 \<and>
   Max (timestamp ` set twoSamples) + 10000 \<le> 2 ^ 53 \<and>
   generateTimeSeriesData twoSamples 1000
     = Some [\<lparr> ts_timestamp = 500, ts_responseTime = 120, ts_throughput = 1,
              ts_activeThreads = 1, ts_errorCount = 0 \<rparr>,
           \<lparr> ts_timestamp = 1500, ts_responseTime = 80, ts_throughput = 1,
              ts_activeThreads = 1, ts_errorCount = 1 \<rparr>] \<and>
   generateTimeSeriesData_default twoSamples \<noteq> None \<and>
   fl64 (timestamp (sample 500 120 ''A'' True)) = timestamp (sample 500 120 ''A'' True) \<and>
   fl64 (timestamp (sample 1700 80 ''B'' False)) = timestamp (sample 1700 80 ''B'' False) \<and>
   (0 :: real) \<le> 0 \<and> generateTimeSeriesData twoSamples 0 = None \<and>
   (- 1000 :: real) \<le> 0 \<and> generateTimeSeriesData twoSamples (- 1000) = None"
proof -
  have ne: "twoSamples \<noteq> []" by (simp add: twoSamples_def)
  have tI: "\<forall>r \<in> set twoSamples. timestamp r \<in> \<int>"
    by (simp add: twoSamples_def sample_def)
  have mm: "Min (timestamp ` set twoSamples) = 500" "Max (timestamp ` set twoSamples) = 1700"
    by (simp_all add: twoSamples_def sample_def)
  have d1: "fl64 (timestamp (sample 500 120 ''A'' True)) = timestamp (sample 500 120 ''A'' True)"
    using fl64_of_nat [of 500] by (simp add: sample_def)
  have d2: "fl64 (timestamp (sample 1700 80 ''B'' False)) = timestamp (sample 1700 80 ''B'' False)"
    using fl64_of_nat [of 1700] by (simp add: sample_def)
  have dbl: "\<forall>r \<in> set twoSamples. fl64 (timestamp r) = timestamp r"
    using d1 d2 by (simp add: twoSamples_def)
  have lo: "- (2 ^ 53) \<le> Min (timestamp ` set twoSamples)"
    and hi: "Max (timestamp ` set twoSamples) + 10000 \<le> 2 ^ 53"
    unfolding mm by simp_all
  note t0 = generateTimeSeriesData_terminates [of 0 twoSamples]
  note t1 = generateTimeSeriesData_terminates [of "- 1000" twoSamples]
  have "twoSamples \<noteq> [] \<and> (\<forall>r \<in> set twoSamples. timestamp r \<in> \<int>) \<and>
    - (2 ^ 53) \<le> Min (timestamp ` set twoSamples) \<and>
    Max (timestamp ` set twoSamples) + 10000 \<le> 2 ^ 53"
    using ne tI lo hi by (intro conjI)
  from t0 [THEN conjunct2, THEN conjunct2, THEN conjunct1, THEN mp, OF this]
  have "\<exists>points. generateTimeSeriesData_default twoSamples = Some points" .
  then have def: "generateTimeSeriesData_default twoSamples \<noteq> None" by auto
  have "twoSamples \<noteq> [] \<and> (0 :: real) \<le> 0
    \<and> (\<forall>r \<in> set twoSamples. fl64 (timestamp r) = timestamp r)"
    using ne dbl by (intro conjI) simp_all
  from t0 [THEN conjunct2, THEN conjunct2, THEN conjunct2, THEN conjunct1, THEN mp, OF this]
  have z: "generateTimeSeriesData twoSamples 0 = None" .
  have "twoSamples \<noteq> [] \<and> (- 1000 :: real) \<le> 0
    \<and> (\<forall>r \<in> set twoSamples. fl64 (timestamp r) = timestamp r)"
    using ne dbl by (intro conjI) simp_all
  from t1 [THEN conjunct2, THEN conjunct2, THEN conjunct2, THEN conjunct1, THEN mp, OF this]
  have m: "generateTimeSeriesData twoSamples (- 1000) = None" .
  from ne mm def z m d1 d2 twoSamples_series show ?thesis by (simp add: sample_def)
qed

theorem generateTimeSeriesData_absorbed_counterexample:
  "(0 :: real) < 10000 \<and>
   generateTimeSeriesData_default [sample (10 ^ 21) 100 ''X'' True] = None"
  using absorbed_series by (simp add: generateTimeSeriesData_default_def)

subsection \<open>Objects used as dictionaries\<close>

lemma set_Set_values [simp]: "set (Set_values xs) = set xs"
  by (induction xs) auto

lemma distinct_Set_values [simp]: "distinct (Set_values xs)"
  by (induction xs) simp_all

lemma push_to_group_keys:
  assumes "push_to_group k v g = Inr g'"
  shows "map fst g' = (if k \<in> set (map fst g) then map fst g else map fst g @ [k])"
proof (cases "map_of g k")
  case None
  then have "k \<notin> set (map fst g)" by (simp add: map_of_eq_None_iff)
  with None assms show ?thesis by (auto simp: push_to_group_def split: if_splits)
next
  case (Some items)
  then have "k \<in> fst ` set g" by (metis map_of_eq_None_iff option.distinct(1))
  moreover from Some assms have "g' = AList.update k (items @ [v]) g"
    by (simp add: push_to_group_def)
  ultimately show ?thesis by (simp add: update_keys)
qed

lemma groupBy_from_keys:
  "groupBy_from g xs key = Inr g' \<Longrightarrow>
   map fst g' = map fst g @ filter (\<lambda>k. k \<notin> set (map fst g)) (Set_values (map key xs))"
proof (induction xs arbitrary: g)
  case Nil
  then show ?case by simp
next
  case (Cons x xs)
  from Cons.prems obtain g1 where g1: "push_to_group (key x) x g = Inr g1"
    and rest: "groupBy_from g1 xs key = Inr g'"
    by (auto split: sum.splits)
  note k1 = push_to_group_keys [OF g1]
  note ih = Cons.IH [OF rest]
  show ?case
  proof (cases "key x \<in> set (map fst g)")
    case True
    then have "filter (\<lambda>k. k \<notin> set (map fst g)) (filter (\<lambda>y. y \<noteq> key x) (Set_values (map key xs)))
               = filter (\<lambda>k. k \<notin> set (map fst g)) (Set_values (map key xs))"
      by (auto intro: filter_cong)
    with True ih k1 show ?thesis by simp
  next
    case False
    have "filter (\<lambda>k. k \<notin> set (map fst g)) (filter (\<lambda>y. y \<noteq> key x) (Set_values (map key xs)))
          = filter (\<lambda>k. k \<notin> set (map fst g @ [key x])) (Set_values (map key xs))"
      by (auto intro: filter_cong)
    with False ih k1 show ?thesis by simp
  qed
qed

lemma groupBy_keys:
  "groupBy xs key = Inr g \<Longrightarrow> map fst g = Set_values (map key xs)"
  using groupBy_from_keys [of "[]" xs key g] by (simp add: groupBy_def)

lemma map_fst_insort_key:
  "map fst (insort_key (\<lambda>e. f (fst e)) x xs) = insort_key f (fst x) (map fst xs)"
  by (induction xs) simp_all

lemma map_fst_sort_key:
  "map fst (sort_key (\<lambda>e. f (fst e)) xs) = sort_key f (map fst xs)"
  by (induction xs) (simp_all add: map_fst_insort_key)

lemma Object_entries_keys: "map fst (Object_entries obj) = property_order (map fst obj)"
  by (simp add: Object_entries_def property_order_def map_fst_sort_key filter_map o_def)

lemma property_order_no_index:
  "\<forall>k \<in> set ks. array_index k = None \<Longrightarrow> property_order ks = ks"
  by (simp add: property_order_def filter_empty_conv[THEN iffD2])

subsection \<open>Per-endpoint metrics\<close>

lemma ep_label_endpointMetricsOf: "ep_label (endpointMetricsOf e) = fst e"
  by (simp add: endpointMetricsOf_def Let_def)

lemma calculateEndpointMetrics_unfold:
  assumes "calculateEndpointMetrics results = Inr ms"
  obtains ms0 where "ms = sort_key (\<lambda>m. - ep_average m) ms0"
    and "map ep_label ms0 = property_order (Set_values (map label results))"
proof -
  from assms obtain g where g: "groupBy results label = Inr g"
    and ms: "ms = sort_key (\<lambda>m. - ep_average m) (map endpointMetricsOf (Object_entries g))"
    by (auto simp: calculateEndpointMetrics_def Let_def split: sum.splits)
  have "map ep_label (map endpointMetricsOf (Object_entries g)) = map fst (Object_entries g)"
    by (simp add: ep_label_endpointMetricsOf o_def)
  also have "\<dots> = property_order (Set_values (map label results))"
    by (simp add: Object_entries_keys groupBy_keys [OF g])
  finally show ?thesis using ms that by blast
qed

lemma set_property_order [simp]: "set (property_order ks) = set ks"
  by (auto simp: property_order_def)

lemma mset_property_order [simp]: "mset (property_order ks) = mset ks"
  by (simp add: property_order_def)

text \<open>
  C9, as the source has it. When \<open>calculateEndpointMetrics\<close> returns, the result holds
  one entry for each distinct label, in descending order of the average. Entries with
  the same average keep the order in which \<open>Object.entries\<close> enumerates the groups:
  labels that are array indices first, in ascending numeric order, then the other
  labels in the order of their first occurrence in the input; so ties are in encounter
  order when no label is an array index. Sorting the result again by the same key
  leaves it as it is.
\<close>

theorem calculateEndpointMetrics_order:
  "calculateEndpointMetrics results = Inr ms \<longrightarrow>
     sorted_wrt (\<lambda>a b. ep_average a \<ge> ep_average b) ms \<and>
     mset (map ep_label ms) = mset (Set_values (map label results)) \<and>
     (\<forall>v. subseq (map ep_label (filter (\<lambda>m. ep_average m = v) ms))
                 (property_order (Set_values (map label results)))) \<and>
     ((\<forall>r \<in> set results. array_index (label r) = None) \<longrightarrow>
        (\<forall>v. subseq (map ep_label (filter (\<lambda>m. ep_average m = v) ms))
                    (Set_values (map label results)))) \<and>
     sort_key (\<lambda>m. - ep_average m) ms = ms"
proof
  assume "calculateEndpointMetrics results = Inr ms"
  then obtain ms0 where ms: "ms = sort_key (\<lambda>m. - ep_average m) ms0"
    and labels: "map ep_label ms0 = property_order (Set_values (map label results))"
    by (rule calculateEndpointMetrics_unfold)
  have srt: "sorted (map (\<lambda>m. - ep_average m) ms)" unfolding ms by (rule sorted_sort_key)
  then have desc: "sorted_wrt (\<lambda>a b. ep_average a \<ge> ep_average b) ms"
    by (simp add: sorted_map)
  have "mset (map ep_label ms) = mset (map ep_label ms0)" unfolding ms by simp
  then have one: "mset (map ep_label ms) = mset (Set_values (map label results))"
    by (simp add: labels)
  have ties: "subseq (map ep_label (filter (\<lambda>m. ep_average m = v) ms))
                (property_order (Set_values (map label results)))" for v
  proof -
    have "filter (\<lambda>m. - ep_average m = - v) ms = filter (\<lambda>m. - ep_average m = - v) ms0"
      unfolding ms by (rule sort_key_stable)
    then have "filter (\<lambda>m. ep_average m = v) ms = filter (\<lambda>m. ep_average m = v) ms0" by simp
    moreover have "subseq (map ep_label (filter (\<lambda>m. ep_average m = v) ms0)) (map ep_label ms0)"
      by (intro subseq_map) simp
    ultimately show ?thesis by (simp add: labels)
  qed
  have enc: "subseq (map ep_label (filter (\<lambda>m. ep_average m = v) ms))
                (Set_values (map label results))"
    if "\<forall>r \<in> set results. array_index (label r) = None" for v
  proof -
    from that have "property_order (Set_values (map label results)) = Set_values (map label results)"
      by (intro property_order_no_index) auto
    with ties [of v] show ?thesis by simp
  qed
  have idem: "sort_key (\<lambda>m. - ep_average m) ms = ms"
    using srt by (rule sort_key_id_if_sorted)
  from desc one ties enc idem
  show "sorted_wrt (\<lambda>a b. ep_average a \<ge> ep_average b) ms \<and>
     mset (map ep_label ms) = mset (Set_values (map label results)) \<and>
     (\<forall>v. subseq (map ep_label (filter (\<lambda>m. ep_average m = v) ms))
                 (property_order (Set_values (map label results)))) \<and>
     ((\<forall>r \<in> set results. array_index (label r) = None) \<longrightarrow>
        (\<forall>v. subseq (map ep_label (filter (\<lambda>m. ep_average m = v) ms))
                    (Set_values (map label results)))) \<and>
     sort_key (\<lambda>m. - ep_average m) ms = ms"
    by blast
qed
theorem calculateEndpointMetrics_order_witness:
  "calculateEndpointMetrics tiedSamples = Inr tiedMetrics \<and>
   map ep_label tiedMetrics = [''1'', ''2''] \<and>
   map ep_average tiedMetrics = [100, 100] \<and>
   sorted_wrt (\<lambda>a b. ep_average a \<ge> ep_average b) tiedMetrics \<and>
   property_order (Set_values (map label tiedSamples)) = [''1'', ''2''] \<and>
   subseq (map ep_label (filter (\<lambda>m. ep_average m = 100) tiedMetrics)) [''1'', ''2''] \<and>
   sort_key (\<lambda>m. - ep_average m) tiedMetrics = tiedMetrics"
proof -
  have avg: "ep_average (endpointMetricsOf (l, [sample t 100 l True])) = 100" for l t
    by (simp add: endpointMetricsOf_def sample_def average_def Let_def)
  have grp: "groupBy tiedSamples label
             = Inr [(''2'', [sample 1000 100 ''2'' True]), (''1'', [sample 2000 100 ''1'' True])]"
    by (simp add: groupBy_def tiedSamples_def push_to_group_def Object_prototype_keys_def
        sample_def)
  have idx: "array_index ''1'' = Some 1" "array_index ''2'' = Some 2"
    by (simp_all add: array_index_def is_digit_def decimal_def)
  have ent: "Object_entries [(''2'', [sample 1000 100 ''2'' True]), (''1'', [sample 2000 100 ''1'' True])]
             = [(''1'', [sample 2000 100 ''1'' True]), (''2'', [sample 1000 100 ''2'' True])]"
    by (simp add: Object_entries_def idx key_index_def)
  have ev: "calculateEndpointMetrics tiedSamples = Inr tiedMetrics"
    by (simp add: calculateEndpointMetrics_def grp ent tiedMetrics_def avg Let_def)
  have lab: "map ep_label tiedMetrics = [''1'', ''2'']"
    by (simp add: tiedMetrics_def ep_label_endpointMetricsOf)
  have av: "map ep_average tiedMetrics = [100, 100]"
    by (simp add: tiedMetrics_def avg)
  have po: "property_order (Set_values (map label tiedSamples)) = [''1'', ''2'']"
    by (simp add: property_order_def tiedSamples_def sample_def idx key_index_def)
  have fl: "filter (\<lambda>m. ep_average m = 100) tiedMetrics = tiedMetrics"
    by (simp add: tiedMetrics_def avg)
  from calculateEndpointMetrics_order [of tiedSamples tiedMetrics] ev
  have "sorted_wrt (\<lambda>a b. ep_average a \<ge> ep_average b) tiedMetrics"
    and "subseq (map ep_label (filter (\<lambda>m. ep_average m = 100) tiedMetrics))
           (property_order (Set_values (map label tiedSamples)))"
    and "sort_key (\<lambda>m. - ep_average m) tiedMetrics = tiedMetrics"
    by blast+
  with ev lab av po show ?thesis by simp
qed

theorem calculateEndpointMetrics_ties_counterexample:
  "map_sum id (map ep_label) (calculateEndpointMetrics tiedSamples) = Inr [''1'', ''2''] \<and>
   map_sum id (map ep_average) (calculateEndpointMetrics tiedSamples) = Inr [100, 100] \<and>
   Set_values (map label tiedSamples) = [''2'', ''1'']"
proof -
  have avg: "ep_average (endpointMetricsOf (l, [sample t 100 l True])) = 100" for l t
    by (simp add: endpointMetricsOf_def sample_def average_def Let_def)
  have grp: "groupBy tiedSamples label
             = Inr [(''2'', [sample 1000 100 ''2'' True]), (''1'', [sample 2000 100 ''1'' True])]"
    by (simp add: groupBy_def tiedSamples_def push_to_group_def Object_prototype_keys_def
        sample_def)
  have idx: "array_index ''1'' = Some 1" "array_index ''2'' = Some 2"
    by (simp_all add: array_index_def is_digit_def decimal_def)
  have ent: "Object_entries [(''2'', [sample 1000 100 ''2'' True]), (''1'', [sample 2000 100 ''1'' True])]
             = [(''1'', [sample 2000 100 ''1'' True]), (''2'', [sample 1000 100 ''2'' True])]"
    by (simp add: Object_entries_def idx key_index_def)
  have ev: "calculateEndpointMetrics tiedSamples = Inr tiedMetrics"
    by (simp add: calculateEndpointMetrics_def grp ent tiedMetrics_def avg Let_def)
  show ?thesis
    by (simp add: ev tiedMetrics_def avg ep_label_endpointMetricsOf)
      (simp add: tiedSamples_def sample_def)
qed

text \<open>
  \<open>calculateEndpointMetrics\<close> throws exactly when a label names a property that the
  object of groups inherits from \<open>Object.prototype\<close>.
\<close>

lemma push_to_group_ok:
  assumes "k \<notin> set Object_prototype_keys"
  shows "\<exists>g'. push_to_group k v g = Inr g'"
proof (cases "map_of g k")
  case None
  with assms show ?thesis unfolding push_to_group_def by simp
next
  case (Some items)
  then show ?thesis unfolding push_to_group_def by simp
qed

lemma groupBy_from_throws:
  assumes "\<forall>k \<in> fst ` set g. k \<notin> set Object_prototype_keys"
  shows "(\<exists>e. groupBy_from g xs key = Inl e)
         \<longleftrightarrow> (\<exists>x \<in> set xs. key x \<in> set Object_prototype_keys)"
  using assms
proof (induction xs arbitrary: g)
  case Nil
  show ?case by simp
next
  case (Cons x xs)
  show ?case
  proof (cases "key x \<in> set Object_prototype_keys")
    case True
    have "key x \<notin> fst ` set g"
    proof
      assume "key x \<in> fst ` set g"
      with Cons.prems have "key x \<notin> set Object_prototype_keys" by (rule bspec)
      with True show False by simp
    qed
    then have "map_of g (key x) = None" by (simp add: map_of_eq_None_iff)
    then have "push_to_group (key x) x g = Inl TypeError"
      using True unfolding push_to_group_def by simp
    then have "groupBy_from g (x # xs) key = Inl TypeError" by simp
    then have "\<exists>e. groupBy_from g (x # xs) key = Inl e" by (rule exI)
    moreover have "\<exists>x \<in> set (x # xs). key x \<in> set Object_prototype_keys"
      using True by (intro bexI [of _ x]) simp_all
    ultimately show ?thesis by (intro iffI)
  next
    case False
    from push_to_group_ok [OF False, of x g]
    obtain g1 where g1: "push_to_group (key x) x g = Inr g1" by (rule exE)
    have "set (map fst g1) \<subseteq> insert (key x) (set (map fst g))"
      unfolding push_to_group_keys [OF g1] by (cases "key x \<in> set (map fst g)") auto
    then have sub: "fst ` set g1 \<subseteq> insert (key x) (fst ` set g)" by simp
    have inv: "\<forall>k \<in> fst ` set g1. k \<notin> set Object_prototype_keys"
    proof
      fix k assume "k \<in> fst ` set g1"
      with sub have "k = key x \<or> k \<in> fst ` set g" by (meson insertE subsetD)
      then show "k \<notin> set Object_prototype_keys"
      proof
        assume "k = key x" with False show ?thesis by simp
      next
        assume "k \<in> fst ` set g" with Cons.prems show ?thesis by (rule bspec)
      qed
    qed
    have eq: "groupBy_from g (x # xs) key = groupBy_from g1 xs key" using g1 by simp
    have "(\<exists>e. groupBy_from g (x # xs) key = Inl e)
          \<longleftrightarrow> (\<exists>x \<in> set xs. key x \<in> set Object_prototype_keys)"
      unfolding eq by (rule Cons.IH [OF inv])
    also have "\<dots> \<longleftrightarrow> (\<exists>y \<in> set (x # xs). key y \<in> set Object_prototype_keys)"
      using False by (simp del: set_simps add: list.set)
    finally show ?thesis .
  qed
qed

lemma calculateEndpointMetrics_throws:
  "(\<exists>e. calculateEndpointMetrics results = Inl e)
   \<longleftrightarrow> (\<exists>r \<in> set results. label r \<in> set Object_prototype_keys)"
proof -
  have "(\<exists>e. calculateEndpointMetrics results = Inl e) \<longleftrightarrow> (\<exists>e. groupBy results label = Inl e)"
    unfolding calculateEndpointMetrics_def Let_def by (cases "groupBy results label") simp_all
  then show ?thesis using groupBy_from_throws [of "[]" results label] by (simp add: groupBy_def)
qed

subsection \<open>Error analysis\<close>

text \<open>
  \<open>analyzeErrors\<close> throws nothing: its keys hold a hyphen, which no inherited property
  name does, and every group it maps over holds a sample.
\<close>

lemma snd_update_subset: "snd ` set (AList.update k v al) \<subseteq> insert v (snd ` set al)"
  by (induction al) auto

lemma push_to_group_nonempty:
  assumes "push_to_group k v g = Inr g'" and "[] \<notin> snd ` set g"
  shows "[] \<notin> snd ` set g'"
proof (cases "map_of g k")
  case None
  with assms(1) have "g' = g @ [(k, [v])]"
    unfolding push_to_group_def by (simp split: if_splits)
  with assms(2) show ?thesis by simp
next
  case (Some items)
  with assms(1) have "g' = AList.update k (items @ [v]) g"
    unfolding push_to_group_def by simp
  then have "snd ` set g' \<subseteq> insert (items @ [v]) (snd ` set g)"
    by (simp only: snd_update_subset)
  moreover have "[] \<notin> insert (items @ [v]) (snd ` set g)" using assms(2) by simp
  ultimately show ?thesis by (meson subsetD)
qed

lemma groupBy_from_nonempty:
  "groupBy_from g xs key = Inr g' \<Longrightarrow> [] \<notin> snd ` set g \<Longrightarrow> [] \<notin> snd ` set g'"
proof (induction xs arbitrary: g)
  case Nil
  then show ?case by simp
next
  case (Cons x xs)
  from Cons.prems(1) obtain g1 where g1: "push_to_group (key x) x g = Inr g1"
    and rest: "groupBy_from g1 xs key = Inr g'"
    by (auto split: sum.splits)
  from push_to_group_nonempty [OF g1 Cons.prems(2)] have "[] \<notin> snd ` set g1" .
  from Cons.IH [OF rest this] show ?case .
qed

lemma set_Object_entries: "set (Object_entries obj) = set obj"
  unfolding Object_entries_def by auto

lemma map_throwing_ok:
  "\<forall>x \<in> set xs. \<exists>y. f x = Inr y \<Longrightarrow> \<exists>ys. map_throwing f xs = Inr ys"
proof (induction xs)
  case Nil
  show ?case by simp
next
  case (Cons x xs)
  then obtain y ys where "f x = Inr y" and "map_throwing f xs = Inr ys" by auto
  then show ?case by simp
qed

lemma errorKey_not_inherited: "errorKey r \<notin> set Object_prototype_keys"
proof -
  have "CHR ''-'' \<in> set (errorKey r)" by (simp add: errorKey_def)
  moreover have "\<forall>k \<in> set Object_prototype_keys. CHR ''-'' \<notin> set k"
    by (simp add: Object_prototype_keys_def)
  ultimately show ?thesis by (meson)
qed

lemma analyzeErrors_returns: "\<exists>clusters. analyzeErrors results = Inr clusters"
proof (cases "filter (\<lambda>r. \<not> success r) results = []")
  case True
  then show ?thesis by (simp add: analyzeErrors_def)
next
  case False
  have "\<not> (\<exists>e. groupBy_from [] (filter (\<lambda>r. \<not> success r) results) errorKey = Inl e)"
    using groupBy_from_throws [of "[]" "filter (\<lambda>r. \<not> success r) results" errorKey]
    by (simp add: errorKey_not_inherited)
  then obtain g where g: "groupBy_from [] (filter (\<lambda>r. \<not> success r) results) errorKey = Inr g"
    by (cases "groupBy_from [] (filter (\<lambda>r. \<not> success r) results) errorKey") auto
  from groupBy_from_nonempty [OF g] have ne: "[] \<notin> snd ` set g" by simp
  have "\<exists>y. errorCluster (length results) e = Inr y" if "e \<in> set (Object_entries g)" for e
  proof -
    from that ne have "snd e \<noteq> []" unfolding set_Object_entries by (metis imageI)
    then obtain e0 es where "snd e = e0 # es" by (cases "snd e") auto
    then have "e = (fst e, e0 # es)" by (metis prod.collapse)
    then show ?thesis by (metis errorCluster.simps(2))
  qed
  then obtain cs where "map_throwing (errorCluster (length results)) (Object_entries g) = Inr cs"
    using map_throwing_ok [of "Object_entries g" "errorCluster (length results)"] by blast
  with False g show ?thesis by (simp add: analyzeErrors_def Let_def)
qed

lemma errorKey_no_hyphen_inj:
  assumes "errorKey r = errorKey r'"
    and "CHR ''-'' \<notin> set (responseCode r)" and "CHR ''-'' \<notin> set (responseCode r')"
  shows "responseCode r = responseCode r' \<and> responseMessage r = responseMessage r'"
proof -
  have *: "xs = xs' \<and> ys = ys'"
    if "xs @ CHR ''-'' # ys = xs' @ CHR ''-'' # ys'" "CHR ''-'' \<notin> set xs" "CHR ''-'' \<notin> set xs'"
    for xs xs' ys ys' :: string
    using that
  proof (induction xs arbitrary: xs')
    case Nil
    then show ?case by (cases xs') auto
  next
    case (Cons a xs)
    then show ?case by (cases xs') auto
  qed
  from assms show ?thesis unfolding errorKey_def by (intro *) simp_all
qed

lemma analyzeErrors_same_pair:
  "analyzeErrors [failure ''404'' ''Not Found'' ''A'', failure ''404'' ''Not Found'' ''B'']
   = Inr [\<lparr> ea_responseCode = ''404'', ea_responseMessage = ''Not Found'', ea_count = 2,
             ea_percentage = 100, ea_affectedEndpoints = [''A'', ''B''] \<rparr>]"
  by (simp add: analyzeErrors_def failure_def errorKey_def push_to_group_def Object_entries_def
      array_index_def is_digit_def Object_prototype_keys_def)

text \<open>
  C3. Two failed samples with the same code and message fall into one cluster, whose
  \<open>affectedEndpoints\<close> holds both labels (lemma \<open>analyzeErrors_same_pair\<close>). Distinct
  pairs of code and message are not always kept apart by the key \<open>code-message\<close>: the
  failures with code \<open>ERR-42\<close>, message \<open>timeout\<close> and with code \<open>ERR\<close>, message
  \<open>42-timeout\<close> have the same key and are reported as one cluster of two, under the code
  and message of the first.
\<close>

theorem analyzeErrors_key_collision:
  "(responseCode (failure ''ERR-42'' ''timeout'' ''X''),
    responseMessage (failure ''ERR-42'' ''timeout'' ''X''))
   \<noteq> (responseCode (failure ''ERR'' ''42-timeout'' ''Y''),
       responseMessage (failure ''ERR'' ''42-timeout'' ''Y'')) \<and>
   errorKey (failure ''ERR-42'' ''timeout'' ''X'') = errorKey (failure ''ERR'' ''42-timeout'' ''Y'') \<and>
   analyzeErrors [failure ''ERR-42'' ''timeout'' ''X'', failure ''ERR'' ''42-timeout'' ''Y'']
   = Inr [\<lparr> ea_responseCode = ''ERR-42'', ea_responseMessage = ''timeout'', ea_count = 2,
             ea_percentage = 100, ea_affectedEndpoints = [''X'', ''Y''] \<rparr>]"
  by (simp add: analyzeErrors_def failure_def errorKey_def push_to_group_def Object_entries_def
      array_index_def is_digit_def Object_prototype_keys_def)

end
